theory Spec2Isabelle
  imports Complex_Main "HOL-Library.Log_Nat"
begin

section \<open>The grid demo component: data model\<close>

text \<open>
  The component keeps one piece of state, \<open>rowData\<close>: an ordered sequence of row
  objects. Every row object the component builds (in \<open>generateData\<close> and in
  \<open>onAddRow\<close>) has the same eight fields.

  The \<open>id\<close> of a row is a JavaScript number. The only expressions that ever produce
  an id are the loop counter of \<open>generateData\<close> (1 to 100) and
  \<open>nextId = max + 1\<close> in \<open>onAddRow\<close>, so the value of an id is a non-negative
  integer and the model takes it as a \<open>nat\<close>; the addition that makes a new id is the
  addition of doubles, with its rounding (see \<open>double_add\<close> below).
  \<open>age\<close> is the integer \<open>Math.floor(..) + 18\<close>. \<open>amount\<close> is the text that
  \<open>toFixed(2)\<close> returns. Strings are lists of characters; the accented letters of
  the city and product names are Latin-1 characters, one \<open>char\<close> each.
\<close>

record row =
  id' :: nat
  name :: string
  age :: int
  city :: string
  product :: string
  amount :: string
  active :: bool
  joined :: string

section \<open>Runtime functions the component calls\<close>

subsection \<open>Arithmetic on numbers\<close>

text \<open>
  A JavaScript number is an IEEE 754 binary64 value. A finite one is a rational,
  and \<open>+\<close> and \<open>*\<close> return the exact result rounded to the nearest binary64
  value, ties to the one with an even significand.

  \<open>binade x\<close> is the exponent \<open>e\<close> with \<open>2^e \<le> x < 2^(e+1)\<close> of a positive \<open>x\<close>,
  found from the bit lengths of its numerator and denominator. \<open>rne\<close> rounds
  to the nearest integer, ties to even. \<open>round_double\<close> rounds to 53 significant
  bits, or to a multiple of \<open>2^-1074\<close> below \<open>2^-1022\<close> (the subnormal
  range). Overflow to infinity starts at \<open>2^1024\<close>; no result in this component
  comes near it (a product with 60 or 1000 of a number below 1, and \<open>d + 1\<close>,
  which is \<open>d\<close> again for every double \<open>d\<close> above \<open>2^53\<close>).
\<close>

definition binade :: "rat \<Rightarrow> int" where
  "binade x =
     (let (p, q) = quotient_of x; k = bitlen p - bitlen q
      in if 2 powi k \<le> x then k else k - 1)"

definition rne :: "rat \<Rightarrow> int" where
  "rne q =
     (let n = \<lfloor>q\<rfloor>; f = q - of_int n
      in if f < 1 / 2 then n else if 1 / 2 < f then n + 1 else if even n then n else n + 1)"

definition round_double :: "rat \<Rightarrow> rat" where
  "round_double x =
     (if x = 0 then 0
      else
        let a = \<bar>x\<bar>; e = max (binade a) (- 1022); u = 2 powi (e - 52)
        in sgn x * (of_int (rne (a / u)) * u))"

text \<open>A rational is the value of a double when rounding leaves it as it is.\<close>

definition is_double :: "rat \<Rightarrow> bool" where
  "is_double x = (round_double x = x)"

text \<open>\<open>a + b\<close> on two numbers whose values are non-negative integers.\<close>

definition double_add :: "nat \<Rightarrow> nat \<Rightarrow> nat" where
  "double_add a b = nat \<lfloor>round_double (of_nat a + of_nat b)\<rfloor>"

subsection \<open>Number to string\<close>

text \<open>
  \<open>String(n)\<close> and the template literal \<open>`${n}`\<close> render a non-negative integer
  number in decimal, without leading zeros (below \<open>10^21\<close>, where JavaScript
  switches to exponent notation).
\<close>

definition digit_char :: "nat \<Rightarrow> char" where
  "digit_char d = char_of (48 + d)"

fun String_num :: "nat \<Rightarrow> string" where
  "String_num n =
     (if n < 10 then [digit_char n] else String_num (n div 10) @ [digit_char (n mod 10)])"

declare String_num.simps [simp del]

definition is_digit :: "char \<Rightarrow> bool" where
  "is_digit c = (48 \<le> (of_char c :: nat) \<and> (of_char c :: nat) \<le> 57)"

subsection \<open>Number.prototype.toFixed(2)\<close>

text \<open>
  \<open>x.toFixed(2)\<close>: a negative \<open>x\<close> gives a minus sign and continues with \<open>-x\<close>;
  \<open>n\<close> is the integer for which \<open>n / 100 - x\<close> is closest to zero, the larger one
  when there are two; the digits of \<open>n\<close>, padded with zeros to at least three, get a
  point before the last two. The argument is the exact value of the number, a
  rational here.
\<close>

definition toFixed2 :: "rat \<Rightarrow> string" where
  "toFixed2 x =
     (let s = (if x < 0 then ''-'' else '''');
          y = (if x < 0 then - x else x);
          n = nat \<lfloor>y * 100 + 1 / 2\<rfloor>
      in s @ String_num (n div 100) @ ''.'' @ [digit_char (n mod 100 div 10), digit_char (n mod 10)])"

text \<open>The shape of such a text: digits, a point, two digits.\<close>

definition is_decimal2 :: "string \<Rightarrow> bool" where
  "is_decimal2 s =
     (4 \<le> length s \<and>
      list_all is_digit (take (length s - 3) s) \<and>
      s ! (length s - 3) = CHR ''.'' \<and>
      is_digit (s ! (length s - 2)) \<and>
      is_digit (s ! (length s - 1)))"

section \<open>generateData\<close>

text \<open>
  The two fixed tables of \<open>generateData\<close>.
\<close>

definition cities :: "string list" where
  "cities =
     [''S'' @ [CHR 0xE3] @ ''o Paulo'', ''Rio de Janeiro'', ''Belo Horizonte'', ''Porto Alegre'',
      ''Curitiba'', ''Salvador'', ''Fortaleza'', ''Recife'', ''Manaus'',
      ''Bras'' @ [CHR 0xED] @ ''lia'']"

definition products :: "string list" where
  "products =
     [''Vinho'', ''Caf'' @ [CHR 0xE9], ''Queijo'', ''Cerveja'', ''Chocolate'', ''Azeite'',
      ''P'' @ [CHR 0xE3] @ ''o'', ''Suco'', ''Arroz'', ''Feij'' @ [CHR 0xE3] @ ''o'']"

text \<open>
  \<open>Math.random()\<close> is not seeded. The model takes the random source as a function
  \<open>rnd\<close>: \<open>rnd k\<close> is the value of the \<open>k\<close>-th call (from 0), a double in \<open>[0, 1)\<close>,
  and the loop carries the number of calls made so far. The product with 60 or
  1000 is rounded to a double before \<open>Math.floor\<close> and \<open>toFixed\<close> see it.

  \<open>new Date(y, m, d).toISOString().slice(0,10)\<close> builds a date in the host's
  local time zone and prints its UTC day, so the text depends on the host's time
  zone. The model takes this as the function \<open>isoDate\<close> of year, month index and
  day.
\<close>

definition in_unit :: "(nat \<Rightarrow> rat) \<Rightarrow> bool" where
  "in_unit rnd = (\<forall>k. is_double (rnd k) \<and> 0 \<le> rnd k \<and> rnd k < 1)"

definition generated_row :: "(nat \<Rightarrow> nat \<Rightarrow> nat \<Rightarrow> string) \<Rightarrow> rat \<Rightarrow> rat \<Rightarrow> nat \<Rightarrow> row" where
  "generated_row isoDate r1 r2 i =
     \<lparr> id' = i,
       name = ''Cliente '' @ String_num i,
       age = \<lfloor>round_double (r1 * 60)\<rfloor> + 18,
       city = cities ! (i mod length cities),
       product = products ! (i mod length products),
       amount = toFixed2 (round_double (r2 * 1000)),
       active = (i mod 3 \<noteq> 0),
       joined = isoDate (2020 + i mod 6) (i mod 12) (i mod 28 + 1) \<rparr>"

function generateData_loop ::
  "(nat \<Rightarrow> nat \<Rightarrow> nat \<Rightarrow> string) \<Rightarrow> (nat \<Rightarrow> rat) \<Rightarrow> nat \<Rightarrow> nat \<Rightarrow> row list \<Rightarrow> row list" where
  "generateData_loop isoDate rnd k i rows =
     (if i \<le> 100
      then generateData_loop isoDate rnd (k + 2) (i + 1)
             (rows @ [generated_row isoDate (rnd k) (rnd (k + 1)) i])
      else rows)"
  by pat_completeness auto
termination
  by (relation "measure (\<lambda>(isoDate, rnd, k, i, rows). 101 - i)") auto

declare generateData_loop.simps [simp del]

definition generateData :: "(nat \<Rightarrow> nat \<Rightarrow> nat \<Rightarrow> string) \<Rightarrow> (nat \<Rightarrow> rat) \<Rightarrow> row list" where
  "generateData isoDate rnd = generateData_loop isoDate rnd 0 1 []"

text \<open>
  What \<open>isoDate\<close> is on a host whose time zone is UTC, where local midnight is UTC
  midnight: the four-digit year, the month (the index plus one) and the day, the
  last two padded to two digits.
\<close>

definition pad2 :: "nat \<Rightarrow> string" where
  "pad2 n = (if n < 10 then CHR ''0'' # String_num n else String_num n)"

definition isoDate_UTC :: "nat \<Rightarrow> nat \<Rightarrow> nat \<Rightarrow> string" where
  "isoDate_UTC y m d = String_num y @ ''-'' @ pad2 (m + 1) @ ''-'' @ pad2 d"

text \<open>
  The fields of a row other than \<open>age\<close> and \<open>amount\<close>, the two that come from the
  random source.
\<close>

definition fixed_fields :: "row \<Rightarrow> nat \<times> string \<times> string \<times> string \<times> bool \<times> string" where
  "fixed_fields r = (id' r, name r, city r, product r, active r, joined r)"

section \<open>Row handlers\<close>

subsection \<open>onAddRow\<close>

text \<open>
  What a handler can throw: the spread call of \<open>onAddRow\<close> and the parser of
  \<open>restoreColumnState\<close>.
\<close>

datatype error = RangeError | SyntaxError

text \<open>
  \<open>Math.max(...xs)\<close> of a non-empty argument list is the running maximum of its
  elements; \<open>onAddRow\<close> calls it only when \<open>prev.length\<close> is not zero and takes 0
  otherwise. The spread passes every id as an argument of one call, and an engine
  accepts only so many arguments: beyond its limit, the parameter \<open>maxArgs\<close>,
  the call throws a \<open>RangeError\<close>. The \<open>+ 1\<close> is the addition of doubles.
\<close>

definition nextId :: "nat \<Rightarrow> row list \<Rightarrow> error + nat" where
  "nextId maxArgs prev =
     (case map id' prev of
        [] \<Rightarrow> Inr (double_add 0 1)
      | x # xs \<Rightarrow>
          if maxArgs < length (x # xs) then Inl RangeError
          else Inr (double_add (fold max xs x) 1))"

text \<open>
  The new row: two calls of \<open>Math.random()\<close> (\<open>r1\<close> for the age, \<open>r2\<close> for the
  amount), the two short tables written in place, and \<open>today\<close> for
  \<open>new Date().toISOString().slice(0,10)\<close>.
\<close>

definition newRow :: "rat \<Rightarrow> rat \<Rightarrow> string \<Rightarrow> nat \<Rightarrow> row" where
  "newRow r1 r2 today n =
     \<lparr> id' = n,
       name = ''Cliente '' @ String_num n,
       age = \<lfloor>round_double (r1 * 60)\<rfloor> + 18,
       city = [''S'' @ [CHR 0xE3] @ ''o Paulo'', ''Rio de Janeiro'', ''Belo Horizonte'',
               ''Porto Alegre''] ! (n mod 4),
       product = [''Vinho'', ''Caf'' @ [CHR 0xE9], ''Queijo''] ! (n mod 3),
       amount = toFixed2 (round_double (r2 * 1000)),
       active = True,
       joined = today \<rparr>"

definition onAddRow :: "nat \<Rightarrow> rat \<Rightarrow> rat \<Rightarrow> string \<Rightarrow> row list \<Rightarrow> error + row list" where
  "onAddRow maxArgs r1 r2 today prev =
     (case nextId maxArgs prev of
        Inl e \<Rightarrow> Inl e
      | Inr n \<Rightarrow> Inr (newRow r1 r2 today n # prev))"

subsection \<open>onCellClicked\<close>

text \<open>
  A click arrives with or without a DOM event and target; the target's
  \<open>data-action\<close> and \<open>data-id\<close> attributes are strings, or undefined (\<open>None\<close>) when
  the attribute or the whole dataset is absent. \<open>String(id)\<close> of a string is the
  string itself.
\<close>

datatype click = NoEvent | NoTarget | Target "string option" "string option"

definition delete_row :: "string \<Rightarrow> row list \<Rightarrow> row list" where
  "delete_row tid prev = filter (\<lambda>r. String_num (id' r) \<noteq> tid) prev"

definition toggle_active :: "string \<Rightarrow> row list \<Rightarrow> row list" where
  "toggle_active tid prev =
     map (\<lambda>r. if String_num (id' r) = tid then r\<lparr>active := \<not> active r\<rparr> else r) prev"

text \<open>
  \<open>confirmed\<close> is the answer the user gives to the \<open>confirm\<close> dialog, which is
  asked only on the delete path.
\<close>

fun onCellClicked :: "bool \<Rightarrow> click \<Rightarrow> row list \<Rightarrow> row list" where
  "onCellClicked confirmed NoEvent prev = prev"
| "onCellClicked confirmed NoTarget prev = prev"
| "onCellClicked confirmed (Target None tid) prev = prev"
| "onCellClicked confirmed (Target (Some action) None) prev = prev"
| "onCellClicked confirmed (Target (Some action) (Some tid)) prev =
     (if action = [] \<or> tid = [] then prev
      else
        let s1 = (if action = ''del''
                  then (if confirmed then delete_row tid prev else prev)
                  else prev)
        in (if action = ''edit'' then toggle_active tid s1 else s1))"

subsection \<open>onResetData\<close>

definition onResetData ::
  "bool \<Rightarrow> (nat \<Rightarrow> nat \<Rightarrow> nat \<Rightarrow> string) \<Rightarrow> (nat \<Rightarrow> rat) \<Rightarrow> row list \<Rightarrow> row list" where
  "onResetData confirmed isoDate rnd prev =
     (if \<not> confirmed then prev else generateData isoDate rnd)"

subsection \<open>The row sequences the component can hold\<close>

text \<open>
  \<open>rowData\<close> starts as \<open>generateData()\<close> and changes only through the three
  handlers above. (Editing a cell in the grid changes a field of a row in place; the
  id column is not editable.) \<open>reachable isoDate maxArgs n rows\<close>: the component
  can hold \<open>rows\<close> after \<open>n\<close> calls of \<open>onAddRow\<close> that returned, and any number
  of cell clicks and resets.
\<close>

inductive reachable :: "(nat \<Rightarrow> nat \<Rightarrow> nat \<Rightarrow> string) \<Rightarrow> nat \<Rightarrow> nat \<Rightarrow> row list \<Rightarrow> bool"
  for isoDate :: "nat \<Rightarrow> nat \<Rightarrow> nat \<Rightarrow> string" and maxArgs :: nat where
  mount: "reachable isoDate maxArgs 0 (generateData isoDate rnd)"
| add: "reachable isoDate maxArgs n prev \<Longrightarrow> onAddRow maxArgs r1 r2 today prev = Inr rows \<Longrightarrow>
        reachable isoDate maxArgs (Suc n) rows"
| click: "reachable isoDate maxArgs n prev \<Longrightarrow>
          reachable isoDate maxArgs n (onCellClicked confirmed ev prev)"
| reset: "reachable isoDate maxArgs n prev \<Longrightarrow>
          reachable isoDate maxArgs n (onResetData confirmed isoDate rnd prev)"

section \<open>formatCurrency\<close>

text \<open>
  The formatter receives the value of a grid cell: undefined, null, or a
  primitive. A number is NaN, an infinity, negative zero, or a finite value
  (\<open>Finite 0\<close> is positive zero). \<open>Number(value)\<close> follows the language's
  conversion: undefined is NaN, null is 0, true is 1, false is 0, a number is itself,
  an empty string or one of white space only is 0, and any other string goes through
  the runtime's numeric-literal parser, the parameter \<open>StringToNumber\<close>. The
  locale formatting \<open>num.toLocaleString('pt-BR', {style: 'currency', currency: 'BRL'})\<close>
  is the runtime's as well: the parameter \<open>toLocaleString_BRL\<close>.
\<close>

datatype jsnum = NaN | Finite rat | NegZero | PosInfinity | NegInfinity

text \<open>
  The white space and line terminator characters that fit in one \<open>char\<close>: tab,
  line feed, vertical tab, form feed, carriage return, space, no-break space.
\<close>

definition is_StrWhiteSpaceChar :: "char \<Rightarrow> bool" where
  "is_StrWhiteSpaceChar c =
     (c \<in> set [CHR 0x09, CHR 0x0A, CHR 0x0B, CHR 0x0C, CHR 0x0D, CHR 0x20, CHR 0xA0])"

datatype jsval = Undefined | Null | Bool bool | Num jsnum | Str string

fun ToNumber :: "(string \<Rightarrow> jsnum) \<Rightarrow> jsval \<Rightarrow> jsnum" where
  "ToNumber StringToNumber Undefined = NaN"
| "ToNumber StringToNumber Null = Finite 0"
| "ToNumber StringToNumber (Bool b) = (if b then Finite 1 else Finite 0)"
| "ToNumber StringToNumber (Num n) = n"
| "ToNumber StringToNumber (Str s) =
     (if list_all is_StrWhiteSpaceChar s then Finite 0 else StringToNumber s)"

definition isNaN :: "jsnum \<Rightarrow> bool" where
  "isNaN n = (n = NaN)"

definition formatCurrency :: "(string \<Rightarrow> jsnum) \<Rightarrow> (jsnum \<Rightarrow> string) \<Rightarrow> jsval \<Rightarrow> jsval" where
  "formatCurrency StringToNumber toLocaleString_BRL v =
     (if v = Undefined \<or> v = Null then Str []
      else
        let num = ToNumber StringToNumber v
        in if isNaN num then v else Str (toLocaleString_BRL num))"

section \<open>restoreColumnState\<close>

text \<open>
  The handler reads one key of the browser's local storage (\<open>raw\<close>: \<open>None\<close> when
  the key holds nothing), parses it, hands the result to the grid and reports with
  \<open>alert\<close>. The state it acts on is the grid's column state and the alerts shown
  so far. \<open>JSON.parse\<close> is the runtime's parser: it returns a value or throws a
  \<open>SyntaxError\<close> (\<open>None\<close>), and nothing in the component catches it.
\<close>

record 'j ui =
  columnState :: 'j
  alerts :: "string list"

definition restoreColumnState ::
  "(string \<Rightarrow> 'j option) \<Rightarrow> string option \<Rightarrow> 'j ui \<Rightarrow> error + 'j ui" where
  "restoreColumnState JSON_parse raw u =
     (case raw of
        None \<Rightarrow> Inr (u\<lparr>alerts := alerts u @ [''No saved state'']\<rparr>)
      | Some s \<Rightarrow>
          if s = [] then Inr (u\<lparr>alerts := alerts u @ [''No saved state'']\<rparr>)
          else
            (case JSON_parse s of
               None \<Rightarrow> Inl SyntaxError
             | Some st \<Rightarrow>
                 Inr (u\<lparr>columnState := st, alerts := alerts u @ [''Column state restored'']\<rparr>)))"

section \<open>Properties of the runtime functions\<close>

subsection \<open>Rounding to a double\<close>

text \<open>The exponent that \<open>binade\<close> computes is the one that brackets its argument.\<close>

lemma pos_int_powi:
  "0 < (p::int) \<Longrightarrow> (2::rat) powi (bitlen p - 1) \<le> of_int p \<and> of_int p < (2::rat) powi (bitlen p)"
proof -
  assume p: "0 < p"
  from bitlen_bounds[OF p] have a: "2 ^ nat (bitlen p - 1) \<le> p" and b: "p < 2 ^ nat (bitlen p)"
    by simp_all
  from p have b1: "1 \<le> bitlen p" by (auto simp: bitlen_alt_def)
  from a have "(of_int (2 ^ nat (bitlen p - 1)) :: rat) \<le> of_int p" by (simp only: of_int_le_iff)
  then have a': "(2::rat) powi (bitlen p - 1) \<le> of_int p" using b1 by (simp add: power_int_def)
  from b have "(of_int p :: rat) < of_int (2 ^ nat (bitlen p))" by (simp only: of_int_less_iff)
  then have b': "of_int p < (2::rat) powi (bitlen p)" using b1 by (simp add: power_int_def)
  from a' b' show ?thesis ..
qed

lemma binade_bounds:
  assumes "0 < x"
  shows "2 powi (binade x) \<le> x" and "x < 2 powi (binade x + 1)"
proof -
  obtain p q where pq: "quotient_of x = (p, q)" by (cases "quotient_of x")
  then have q: "0 < q" by (rule quotient_of_denom_pos)
  from pq have x: "x = of_int p / of_int q" by (rule quotient_of_div)
  with assms q have p: "0 < p" by (simp add: zero_less_divide_iff)
  let ?k = "bitlen p - bitlen q"
  from pos_int_powi[OF p] have p1: "(2::rat) powi (bitlen p - 1) \<le> of_int p"
    and p2: "of_int p < (2::rat) powi (bitlen p)" by simp_all
  from pos_int_powi[OF q] have q1: "(2::rat) powi (bitlen q - 1) \<le> of_int q"
    and q2: "of_int q < (2::rat) powi (bitlen q)" by simp_all
  have qpos: "(0::rat) < of_int q" using q by simp
  have up: "x < 2 powi (?k + 1)"
  proof -
    have "x < 2 powi (bitlen p) / 2 powi (bitlen q - 1)"
      unfolding x using p p2 q1 by (intro frac_less) simp_all
    also have "\<dots> = 2 powi (bitlen p - (bitlen q - 1))" by (simp add: power_int_diff)
    also have "bitlen p - (bitlen q - 1) = ?k + 1" by simp
    finally show ?thesis .
  qed
  have lo: "2 powi (?k - 1) < x"
  proof -
    have "2 powi (bitlen p - 1) / 2 powi (bitlen q) < x"
      unfolding x using qpos p1 q2 by (intro frac_less2) simp_all
    moreover have "(2::rat) powi (bitlen p - 1) / 2 powi (bitlen q) = 2 powi (bitlen p - 1 - bitlen q)"
      by (simp add: power_int_diff)
    moreover have "bitlen p - 1 - bitlen q = ?k - 1" by simp
    ultimately show ?thesis by simp
  qed
  have b: "binade x = (if 2 powi ?k \<le> x then ?k else ?k - 1)"
    by (simp add: binade_def pq Let_def)
  show "2 powi (binade x) \<le> x" using lo by (simp add: b)
  show "x < 2 powi (binade x + 1)" using up by (auto simp: b not_le)
qed

lemma powi2_le_D: "(2::rat) powi a \<le> 2 powi b \<Longrightarrow> a \<le> b"
proof (rule ccontr)
  assume le: "(2::rat) powi a \<le> 2 powi b" and "\<not> a \<le> b"
  then have "b < a" by simp
  then have "(2::rat) powi b < 2 powi a" by (rule power_int_strict_increasing) simp
  with le show False by simp
qed

lemma powi2_less_D: "(2::rat) powi a < 2 powi b \<Longrightarrow> a < b"
proof (rule ccontr)
  assume less: "(2::rat) powi a < 2 powi b" and "\<not> a < b"
  then have "b \<le> a" by simp
  then have "(2::rat) powi b \<le> 2 powi a" by (rule power_int_increasing) simp
  with less show False by simp
qed

lemma binade_unique:
  assumes "2 powi e \<le> x" and "x < 2 powi (e + 1)"
  shows "binade x = e"
proof -
  have pos: "0 < x" using assms(1) by (rule less_le_trans[rotated]) simp
  note b = binade_bounds[OF pos]
  from assms(1) b(2) have "2 powi e < (2::rat) powi (binade x + 1)" by (rule le_less_trans)
  then have 1: "e < binade x + 1" by (rule powi2_less_D)
  from b(1) assms(2) have "2 powi (binade x) < (2::rat) powi (e + 1)" by (rule le_less_trans)
  then have 2: "binade x < e + 1" by (rule powi2_less_D)
  from 1 2 show ?thesis by simp
qed

text \<open>Rounding to the nearest integer.\<close>

lemma rne_of_int: "rne (of_int n) = n"
  by (simp add: rne_def)

lemma rne_cases: "rne q = \<lfloor>q\<rfloor> \<or> rne q = \<lfloor>q\<rfloor> + 1"
  by (simp add: rne_def Let_def)

lemma rne_ge_floor: "\<lfloor>q\<rfloor> \<le> rne q"
  using rne_cases[of q] by auto

lemma rne_lower: "of_int M \<le> q \<Longrightarrow> M \<le> rne q"
proof -
  assume "of_int M \<le> q"
  then have "M \<le> \<lfloor>q\<rfloor>" by (simp add: le_floor_iff)
  with rne_ge_floor[of q] show ?thesis by simp
qed

lemma rne_upper: "q \<le> of_int N \<Longrightarrow> rne q \<le> N"
proof -
  assume a: "q \<le> of_int N"
  show ?thesis
  proof (cases "q = of_int N")
    case True
    then show ?thesis by (simp add: rne_of_int)
  next
    case False
    with a have "q < of_int N" by simp
    then have "\<lfloor>q\<rfloor> < N" by (simp add: floor_less_iff)
    with rne_cases[of q] show ?thesis by auto
  qed
qed

lemma rne_upper_half: "q < of_int N - 1 / 2 \<Longrightarrow> rne q < N"
proof -
  assume a: "q < of_int N - 1 / 2"
  then have "q < of_int N" by simp
  then have f: "\<lfloor>q\<rfloor> < N" by (simp add: floor_less_iff)
  show ?thesis
  proof (cases "\<lfloor>q\<rfloor> + 1 < N")
    case True
    with rne_cases[of q] show ?thesis by auto
  next
    case False
    with f have n: "\<lfloor>q\<rfloor> = N - 1" by simp
    then have "q - of_int \<lfloor>q\<rfloor> < 1 / 2" using a by simp
    then have "rne q = \<lfloor>q\<rfloor>" by (simp add: rne_def Let_def)
    with f show ?thesis by simp
  qed
qed

text \<open>Rounding a positive number, by the binade it lies in.\<close>

lemma round_double_pos:
  "0 < x \<Longrightarrow> round_double x =
     of_int (rne (x / 2 powi (max (binade x) (- 1022) - 52))) * 2 powi (max (binade x) (- 1022) - 52)"
  by (simp add: round_double_def Let_def)

lemma round_double_normal:
  assumes "2 powi e \<le> x" and "x < 2 powi (e + 1)" and "- 1022 \<le> e"
  shows "round_double x = of_int (rne (x / 2 powi (e - 52))) * 2 powi (e - 52)"
proof -
  have pos: "0 < x" using assms(1) by (rule less_le_trans[rotated]) simp
  have "binade x = e" using assms(1,2) by (rule binade_unique)
  with assms(3) have "max (binade x) (- 1022) = e" by simp
  with round_double_pos[OF pos] show ?thesis by simp
qed

lemma round_double_eval:
  "2 powi e \<le> x \<Longrightarrow> x < 2 powi (e + 1) \<Longrightarrow> - 1022 \<le> e \<Longrightarrow>
   of_int m * 2 powi (e - 52) = y \<Longrightarrow> rne (x / 2 powi (e - 52)) = m \<Longrightarrow> round_double x = y"
  by (simp add: round_double_normal)

lemma round_double_nonneg: "0 \<le> x \<Longrightarrow> 0 \<le> round_double x"
proof (cases "x = 0")
  case True
  then show ?thesis by (simp add: round_double_def)
next
  case False
  assume "0 \<le> x"
  with False have pos: "0 < x" by simp
  let ?u = "(2::rat) powi (max (binade x) (- 1022) - 52)"
  have "0 \<le> x / ?u" using pos by simp
  then have "0 \<le> rne (x / ?u)" using rne_lower[of 0 "x / ?u"] by simp
  then show ?thesis by (simp add: round_double_pos[OF pos])
qed

text \<open>Rounding does not cross a power of two.\<close>

lemma round_double_le_pow:
  assumes "0 < x" and "x \<le> 2 powi k" and "- 1022 \<le> k"
  shows "round_double x \<le> 2 powi k"
proof -
  let ?e = "max (binade x) (- 1022)"
  let ?u = "(2::rat) powi (?e - 52)"
  from binade_bounds(1)[OF assms(1)] assms(2) have "2 powi (binade x) \<le> (2::rat) powi k"
    by (rule order_trans)
  then have "binade x \<le> k" by (rule powi2_le_D)
  with assms(3) have ek: "?e \<le> k" by simp
  have upos: "0 < ?u" by simp
  have "x / ?u \<le> 2 powi k / ?u" using assms(2) upos by (simp add: divide_right_mono)
  also have "2 powi k / ?u = 2 powi (k - (?e - 52))" by (simp add: power_int_diff)
  also have "\<dots> = of_int (2 ^ nat (k - ?e + 52))" using ek by (simp add: power_int_def algebra_simps)
  finally have "rne (x / ?u) \<le> 2 ^ nat (k - ?e + 52)" by (rule rne_upper)
  then have "(of_int (rne (x / ?u)) :: rat) \<le> of_int (2 ^ nat (k - ?e + 52))"
    by (simp only: of_int_le_iff)
  then have "of_int (rne (x / ?u)) * ?u \<le> of_int (2 ^ nat (k - ?e + 52)) * ?u"
    using upos by (simp add: mult_right_mono)
  also have "(of_int (2 ^ nat (k - ?e + 52)) :: rat) = 2 powi (k - ?e + 52)"
    using ek by (simp add: power_int_def)
  also have "2 powi (k - ?e + 52) * ?u = (2::rat) powi (k - ?e + 52 + (?e - 52))"
    by (rule power_int_add[symmetric]) simp
  also have "k - ?e + 52 + (?e - 52) = k" by simp
  finally show ?thesis by (simp add: round_double_pos[OF assms(1)])
qed

lemma round_double_below:
  assumes "2 powi e \<le> x" and "x < 2 powi (e + 1)" and "- 1022 \<le> e"
    and "x / 2 powi (e - 52) < of_int N - 1 / 2"
  shows "round_double x \<le> of_int (N - 1) * 2 powi (e - 52)"
proof -
  from rne_upper_half[OF assms(4)] have "rne (x / 2 powi (e - 52)) \<le> N - 1" by simp
  then have "(of_int (rne (x / 2 powi (e - 52))) :: rat) \<le> of_int (N - 1)"
    by (simp only: of_int_le_iff)
  then have "of_int (rne (x / 2 powi (e - 52))) * 2 powi (e - 52) \<le> of_int (N - 1) * (2::rat) powi (e - 52)"
    by (simp add: mult_right_mono)
  then show ?thesis by (simp only: round_double_normal[OF assms(1,2,3)])
qed

text \<open>Every integer from 0 to \<open>2^53\<close> is a double.\<close>

lemma round_double_of_int:
  assumes "0 \<le> n" and "n \<le> 2 ^ 53"
  shows "round_double (of_int n) = of_int n"
proof (cases "n = 0")
  case True
  then show ?thesis by (simp add: round_double_def)
next
  case False
  with assms(1) have n1: "1 \<le> n" by simp
  let ?x = "of_int n :: rat"
  let ?e = "binade ?x"
  have pos: "0 < ?x" using n1 by simp
  note b = binade_bounds[OF pos]
  have "(2::rat) powi 0 \<le> ?x" using n1 by simp
  from this b(2) have "(2::rat) powi 0 < 2 powi (?e + 1)" by (rule le_less_trans)
  then have "0 < ?e + 1" by (rule powi2_less_D)
  then have e0: "0 \<le> ?e" by simp
  have "(of_int n :: rat) \<le> of_int (2 ^ 53)" using assms(2) by (simp only: of_int_le_iff)
  then have "?x \<le> 2 powi 53" by simp
  with b(1) have "(2::rat) powi ?e \<le> 2 powi 53" by (rule order_trans)
  then have e53: "?e \<le> 53" by (rule powi2_le_D)
  from e0 have m: "max ?e (- 1022) = ?e" by simp
  have "?x / 2 powi (?e - 52) = of_int (rne (?x / 2 powi (?e - 52)))"
  proof (cases "?e \<le> 52")
    case True
    have "?x / 2 powi (?e - 52) = ?x * 2 powi (52 - ?e)"
      by (simp add: power_int_diff)
    also have "\<dots> = of_int (n * 2 ^ nat (52 - ?e))" using True by (simp add: power_int_def)
    finally have q: "?x / 2 powi (?e - 52) = of_int (n * 2 ^ nat (52 - ?e))" .
    show ?thesis by (simp only: q rne_of_int)
  next
    case False
    with e53 have e: "?e = 53" by simp
    with b(1) have "(2::rat) powi 53 \<le> ?x" by simp
    then have "(of_int (2 ^ 53) :: rat) \<le> of_int n" by simp
    then have "2 ^ 53 \<le> n" by (simp only: of_int_le_iff)
    with assms(2) have n: "n = 2 ^ 53" by simp
    have "?x / 2 powi (?e - 52) = ?x / 2 powi 1" using e by simp
    also have "\<dots> = of_int (2 ^ 52)" by (simp add: n)
    finally have q: "?x / 2 powi (?e - 52) = of_int (2 ^ 52)" .
    show ?thesis by (simp only: q rne_of_int)
  qed
  moreover have "(2::rat) powi (?e - 52) \<noteq> 0" by simp
  ultimately have "of_int (rne (?x / 2 powi (?e - 52))) * 2 powi (?e - 52) = ?x"
    by (simp add: nonzero_eq_divide_eq)
  with round_double_pos[OF pos] m show ?thesis by simp
qed

text \<open>A double below 1 is at most \<open>1 - 2^-53\<close>.\<close>

lemma is_double_below_1:
  assumes "is_double r" and "r < 1"
  shows "r \<le> 1 - 1 / 2 ^ 53"
proof (cases "r < 1 / 2")
  case True
  then show ?thesis by simp
next
  case False
  then have lo: "2 powi (- 1) \<le> r" by simp
  have hi: "r < 2 powi (- 1 + 1)" using assms(2) by simp
  let ?m = "rne (r / 2 powi (- 1 - 52))"
  from round_double_normal[OF lo hi] assms(1)
  have r: "r = of_int ?m * 2 powi (- 1 - 52)" by (simp add: is_double_def)
  have u: "(2::rat) powi (- 1 - 52) = 1 / 2 ^ 53" by (simp add: power_int_minus_divide)
  from r have r': "r = of_int ?m / 2 ^ 53" by (simp only: u) simp
  with assms(2) have "(of_int ?m :: rat) < 2 ^ 53" by (simp add: divide_less_eq)
  then have "(of_int ?m :: rat) < of_int (2 ^ 53)" by simp
  then have "?m < 2 ^ 53" by (simp only: of_int_less_iff)
  then have "?m \<le> 2 ^ 53 - 1" by simp
  then have "(of_int ?m :: rat) \<le> of_int (2 ^ 53 - 1)" by (simp only: of_int_le_iff)
  then have "(of_int ?m :: rat) / 2 ^ 53 \<le> of_int (2 ^ 53 - 1) / 2 ^ 53"
    by (simp add: divide_right_mono)
  with r' show ?thesis by (simp add: diff_divide_distrib)
qed

text \<open>
  The two products of the component, for a factor that is a double below 1: the
  rounded product stays below 60, and below 1000.
\<close>

lemma round_double_times_60:
  assumes "0 \<le> r" and "r \<le> 1 - 1 / 2 ^ 53"
  shows "0 \<le> round_double (r * 60)" and "round_double (r * 60) < 60"
proof -
  let ?x = "r * 60"
  have x0: "0 \<le> ?x" using assms(1) by simp
  show "0 \<le> round_double ?x" using x0 by (rule round_double_nonneg)
  show "round_double ?x < 60"
  proof (cases "?x \<le> 32")
    case True
    show ?thesis
    proof (cases "?x = 0")
      case True
      then show ?thesis by (simp add: round_double_def)
    next
      case False
      with x0 have pos: "0 < ?x" by simp
      from True have "?x \<le> 2 powi 5" by simp
      from round_double_le_pow[OF pos this] have "round_double ?x \<le> 2 powi 5" by simp
      then show ?thesis by simp
    qed
  next
    case False
    then have lo: "2 powi 5 \<le> ?x" by simp
    from assms(2) have le: "?x \<le> 60 - 60 / 2 ^ 53" by simp
    then have hi: "?x < 2 powi (5 + 1)" by simp
    have u: "(2::rat) powi (5 - 52) = 1 / 2 ^ 47" by (simp add: power_int_minus_divide)
    have "?x / 2 powi (5 - 52) = ?x * 2 ^ 47" by (simp only: u) simp
    also have "\<dots> \<le> (60 - 60 / 2 ^ 53) * 2 ^ 47" using le by (rule mult_right_mono) simp
    also have "\<dots> < of_int (60 * 2 ^ 47) - 1 / 2" by simp
    finally have "?x / 2 powi (5 - 52) < of_int (60 * 2 ^ 47) - 1 / 2" .
    from round_double_below[OF lo hi _ this]
    have "round_double ?x \<le> of_int (60 * 2 ^ 47 - 1) * 2 powi (5 - 52)" by simp
    also have "\<dots> < 60" by (simp only: u) simp
    finally show ?thesis .
  qed
qed

lemma round_double_times_1000:
  assumes "0 \<le> r" and "r \<le> 1 - 1 / 2 ^ 53"
  shows "0 \<le> round_double (r * 1000)" and "round_double (r * 1000) < 1000"
proof -
  let ?x = "r * 1000"
  have x0: "0 \<le> ?x" using assms(1) by simp
  show "0 \<le> round_double ?x" using x0 by (rule round_double_nonneg)
  show "round_double ?x < 1000"
  proof (cases "?x \<le> 512")
    case True
    show ?thesis
    proof (cases "?x = 0")
      case True
      then show ?thesis by (simp add: round_double_def)
    next
      case False
      with x0 have pos: "0 < ?x" by simp
      from True have "?x \<le> 2 powi 9" by simp
      from round_double_le_pow[OF pos this] have "round_double ?x \<le> 2 powi 9" by simp
      then show ?thesis by simp
    qed
  next
    case False
    then have lo: "2 powi 9 \<le> ?x" by simp
    from assms(2) have le: "?x \<le> 1000 - 1000 / 2 ^ 53" by simp
    then have hi: "?x < 2 powi (9 + 1)" by simp
    have u: "(2::rat) powi (9 - 52) = 1 / 2 ^ 43" by (simp add: power_int_minus_divide)
    have "?x / 2 powi (9 - 52) = ?x * 2 ^ 43" by (simp only: u) simp
    also have "\<dots> \<le> (1000 - 1000 / 2 ^ 53) * 2 ^ 43" using le by (rule mult_right_mono) simp
    also have "\<dots> < of_int (1000 * 2 ^ 43) - 1 / 2" by simp
    finally have "?x / 2 powi (9 - 52) < of_int (1000 * 2 ^ 43) - 1 / 2" .
    from round_double_below[OF lo hi _ this]
    have "round_double ?x \<le> of_int (1000 * 2 ^ 43 - 1) * 2 powi (9 - 52)" by simp
    also have "\<dots> < 1000" by (simp only: u) simp
    finally show ?thesis .
  qed
qed

text \<open>Adding one to an id below \<open>2^53\<close> is exact; at \<open>2^53\<close> the sum rounds back.\<close>

lemma double_add_exact:
  assumes "a + b \<le> 9007199254740992"
  shows "double_add a b = a + b"
proof -
  from assms have "int (a + b) \<le> int 9007199254740992" by (simp only: of_nat_le_iff)
  then have "int (a + b) \<le> 2 ^ 53" by simp
  from round_double_of_int[OF _ this] have "round_double (of_int (int (a + b))) = of_int (int (a + b))"
    by simp
  then have "round_double (of_nat a + of_nat b) = of_nat (a + b)" by simp
  then show ?thesis by (simp only: double_add_def floor_of_nat nat_int)
qed

lemma floor_numeral_div: "\<lfloor>(numeral a :: rat) / numeral b\<rfloor> = numeral a div numeral b"
  using floor_divide_of_int_eq[of "numeral a" "numeral b", where ?'a = rat] by simp

lemma round_double_2_53_plus_1: "round_double 9007199254740993 = 9007199254740992"
  by (rule round_double_eval[where e = 53 and m = "2 ^ 52"])
     (simp_all add: rne_def Let_def floor_numeral_div)

lemma double_add_2_53:
  "double_add 9007199254740992 1 = 9007199254740992"
  "double_add 9007199254740992 (Suc 0) = 9007199254740992"
  by (simp_all add: double_add_def round_double_2_53_plus_1)

text \<open>Doubles used in the examples below.\<close>

lemma is_double_examples:
  "is_double 0" "is_double (1 / 2)"
  "is_double (3152519739159347 / 4503599627370496)"
  "is_double (82123139205101 / 4503599627370496)"
proof -
  show "is_double 0" by (simp add: is_double_def round_double_def)
  show "is_double (1 / 2)"
    unfolding is_double_def
    by (rule round_double_eval[where e = "-1" and m = "2 ^ 52"])
       (simp_all add: rne_def Let_def floor_numeral_div power_int_minus_divide)
  show "is_double (3152519739159347 / 4503599627370496)"
    unfolding is_double_def
    by (rule round_double_eval[where e = "-1" and m = "2 * 3152519739159347"])
       (simp_all add: rne_def Let_def floor_numeral_div power_int_minus_divide)
  show "is_double (82123139205101 / 4503599627370496)"
    unfolding is_double_def
    by (rule round_double_eval[where e = "-6" and m = "64 * 82123139205101"])
       (simp_all add: rne_def Let_def floor_numeral_div power_int_minus_divide)
qed

lemma round_double_small_int:
  "round_double 0 = 0" "round_double 30 = 30" "round_double 500 = 500" "round_double 15 = 15"
  "round_double 250 = 250"
  using round_double_of_int[of 0] round_double_of_int[of 30] round_double_of_int[of 500]
    round_double_of_int[of 15] round_double_of_int[of 250]
  by simp_all

subsection \<open>Number to string and toFixed\<close>

lemma of_char_digit_char: "d < 10 \<Longrightarrow> (of_char (digit_char d) :: nat) = 48 + d"
  by (simp add: digit_char_def)

lemma is_digit_digit_char: "d < 10 \<Longrightarrow> is_digit (digit_char d)"
  by (simp add: is_digit_def of_char_digit_char)

lemma digit_char_inj: "a < 10 \<Longrightarrow> b < 10 \<Longrightarrow> digit_char a = digit_char b \<Longrightarrow> a = b"
proof -
  assume a: "a < 10" and b: "b < 10" and e: "digit_char a = digit_char b"
  from e have "(of_char (digit_char a) :: nat) = of_char (digit_char b)" by simp
  with a b show "a = b" by (simp add: of_char_digit_char)
qed

lemma String_num_nonempty: "String_num n \<noteq> []" "[] \<noteq> String_num n"
  by (subst String_num.simps, simp)+

lemma String_num_digits: "list_all is_digit (String_num n)"
proof (induction n rule: String_num.induct)
  case (1 n)
  show ?case
  proof (cases "n < 10")
    case True
    then show ?thesis by (subst String_num.simps) (simp add: is_digit_digit_char)
  next
    case False
    with 1 show ?thesis by (subst String_num.simps) (simp add: is_digit_digit_char)
  qed
qed

lemma String_num_small: "n < 10 \<Longrightarrow> String_num n = [digit_char n]"
  by (subst String_num.simps) simp

lemma String_num_big: "\<not> n < 10 \<Longrightarrow> String_num n = String_num (n div 10) @ [digit_char (n mod 10)]"
  by (subst String_num.simps) simp

lemma String_num_inj: "String_num m = String_num n \<Longrightarrow> m = n"
proof (induction m arbitrary: n rule: String_num.induct)
  case (1 m)
  show ?case
  proof (cases "m < 10")
    case m: True
    show ?thesis
    proof (cases "n < 10")
      case True
      with m 1(2) show ?thesis by (simp add: String_num_small digit_char_inj)
    next
      case False
      with m 1(2) show ?thesis by (simp add: String_num_small String_num_big String_num_nonempty)
    qed
  next
    case m: False
    show ?thesis
    proof (cases "n < 10")
      case True
      with m 1(2) show ?thesis by (simp add: String_num_small String_num_big String_num_nonempty)
    next
      case False
      with m 1(2) have e1: "String_num (m div 10) = String_num (n div 10)"
        and e2: "digit_char (m mod 10) = digit_char (n mod 10)"
        by (simp_all add: String_num_big)
      from 1(1)[OF m e1] have "m div 10 = n div 10" .
      moreover from e2 have "m mod 10 = n mod 10" by (rule digit_char_inj[rotated 2]) simp_all
      ultimately show ?thesis by (metis div_mult_mod_eq)
    qed
  qed
qed

lemma String_num_eq_iff: "String_num m = String_num n \<longleftrightarrow> m = n"
  using String_num_inj by auto

text \<open>Evaluation of the runtime functions on numerals.\<close>

lemma digit_char_eval:
  "digit_char 0 = CHR ''0''" "digit_char 1 = CHR ''1''" "digit_char 2 = CHR ''2''"
  "digit_char 3 = CHR ''3''" "digit_char 4 = CHR ''4''" "digit_char 5 = CHR ''5''"
  "digit_char 6 = CHR ''6''" "digit_char 7 = CHR ''7''" "digit_char 8 = CHR ''8''"
  "digit_char 9 = CHR ''9''" "digit_char (Suc 0) = CHR ''1''"
  by (simp_all add: digit_char_def char_of_def bit_Suc_0_iff)

lemmas String_num_eval = String_num_small String_num_big digit_char_eval floor_numeral_div

lemma toFixed2_nonneg: "0 \<le> x \<Longrightarrow> toFixed2 x =
   String_num (nat \<lfloor>x * 100 + 1 / 2\<rfloor> div 100) @ ''.'' @
     [digit_char (nat \<lfloor>x * 100 + 1 / 2\<rfloor> mod 100 div 10), digit_char (nat \<lfloor>x * 100 + 1 / 2\<rfloor> mod 10)]"
  by (simp add: toFixed2_def Let_def)

lemma is_decimal2_shape: "ds \<noteq> [] \<Longrightarrow> list_all is_digit ds \<Longrightarrow> is_digit a \<Longrightarrow> is_digit b \<Longrightarrow>
   is_decimal2 (ds @ ''.'' @ [a, b])"
  by (cases ds) (simp_all add: is_decimal2_def nth_append)

lemma is_decimal2_toFixed2: "0 \<le> x \<Longrightarrow> is_decimal2 (toFixed2 x)"
  by (simp only: toFixed2_nonneg)
     (rule is_decimal2_shape, simp_all add: String_num_nonempty String_num_digits is_digit_digit_char)

subsection \<open>The generator loop as a map over the row indices\<close>

lemma loop_eq: "i \<le> 101 \<Longrightarrow> generateData_loop d rnd k i rows =
   rows @ map (\<lambda>j. generated_row d (rnd (k + 2 * (j - i))) (rnd (k + 2 * (j - i) + 1)) j) [i..<101]"
proof (induction d rnd k i rows rule: generateData_loop.induct)
  case (1 d rnd k i rows)
  show ?case
  proof (cases "i \<le> 100")
    case True
    then have "[i..<101] = i # [i+1..<101]" by (simp add: upt_conv_Cons)
    moreover have idx: "\<And>j. i + 1 \<le> j \<Longrightarrow> k + 2 + 2 * (j - (i+1)) = k + 2 * (j - i)" by arith
    have "map (\<lambda>j. generated_row d (rnd (k + 2 + 2 * (j - (i+1)))) (rnd (k + 2 + 2 * (j - (i+1)) + 1)) j) [i+1..<101]
       = map (\<lambda>j. generated_row d (rnd (k + 2 * (j - i))) (rnd (k + 2 * (j - i) + 1)) j) [i+1..<101]"
      by (rule map_cong[OF refl]) (simp only: idx set_upt atLeastLessThan_iff)
    ultimately show ?thesis using True 1
      by (subst generateData_loop.simps) simp
  next
    case False
    with 1 have "i = 101" by simp
    then show ?thesis by (subst generateData_loop.simps) simp
  qed
qed

lemma generateData_eq: "generateData d rnd = map (\<lambda>j. generated_row d (rnd (2 * (j - 1))) (rnd (2 * (j - 1) + 1)) j) [1..<101]"
  unfolding generateData_def by (subst loop_eq) simp_all

lemma generateData_set:
  "r \<in> set (generateData d rnd) \<longleftrightarrow>
     (\<exists>i. 1 \<le> i \<and> i \<le> 100 \<and> r = generated_row d (rnd (2 * (i - 1))) (rnd (2 * (i - 1) + 1)) i)"
  by (auto simp: generateData_eq)

lemma generateData_ids: "map id' (generateData d rnd) = [1..<101]"
  by (simp add: generateData_eq generated_row_def o_def map_idI)

lemma generateData_length: "length (generateData d rnd) = 100"
  by (simp add: generateData_eq)

lemma generateData_nth:
  "i < 100 \<Longrightarrow> generateData d rnd ! i = generated_row d (rnd (2 * i)) (rnd (2 * i + 1)) (i + 1)"
  by (simp add: generateData_eq)

lemma age_bounds:
  assumes "is_double r" and "0 \<le> r" and "r < 1"
  shows "18 \<le> \<lfloor>round_double (r * 60)\<rfloor> + 18 \<and> \<lfloor>round_double (r * 60)\<rfloor> + 18 \<le> 77"
proof -
  from is_double_below_1[OF assms(1,3)] have le: "r \<le> 1 - 1 / 2 ^ 53" .
  from round_double_times_60(1)[OF assms(2) le] have "0 \<le> \<lfloor>round_double (r * 60)\<rfloor>" by simp
  moreover from round_double_times_60(2)[OF assms(2) le] have "\<lfloor>round_double (r * 60)\<rfloor> < 60"
    by (simp add: floor_less_iff)
  ultimately show ?thesis by simp
qed

lemma amount_bounds:
  assumes "is_double r" and "0 \<le> r" and "r < 1"
  shows "0 \<le> round_double (r * 1000)" and "round_double (r * 1000) < 1000"
proof -
  from is_double_below_1[OF assms(1,3)] have le: "r \<le> 1 - 1 / 2 ^ 53" .
  show "0 \<le> round_double (r * 1000)" by (rule round_double_times_1000(1)[OF assms(2) le])
  show "round_double (r * 1000) < 1000" by (rule round_double_times_1000(2)[OF assms(2) le])
qed

lemma cities_nth: "i mod length cities < length cities" "length cities = 10"
  by (simp_all add: cities_def)

lemma products_nth: "i mod length products < length products" "length products = 10"
  by (simp_all add: products_def)

lemma tables_distinct: "distinct cities" "distinct products"
  by (simp_all add: cities_def products_def)

lemma in_unit_half: "in_unit (\<lambda>k. 1 / 2)"
  by (simp add: in_unit_def is_double_examples)

text \<open>
  Two rows where the rounding of the product decides the field. With
  \<open>Math.random()\<close> at the double next to 0.7, the exact product with 60 is just
  below 42 and its double is 42: the age is 60, not 59. With the double next to
  0.018235, the exact product with 1000 is just above 18.235 and its double just
  below: the amount is \<open>18.23\<close>, not \<open>18.24\<close>.
\<close>

lemma generated_row_age_rounding:
  "age (generated_row isoDate (3152519739159347 / 4503599627370496) r2 i) = 60"
proof -
  have "round_double (3152519739159347 / 4503599627370496 * 60) = 42"
    by (rule round_double_eval[where e = 5 and m = "42 * 2 ^ 47"])
       (simp_all add: rne_def Let_def floor_numeral_div power_int_minus_divide)
  then show ?thesis by (simp add: generated_row_def)
qed

lemma generated_row_amount_rounding:
  "amount (generated_row isoDate r1 (82123139205101 / 4503599627370496) i) = ''18.23''"
proof -
  have rd: "round_double (10265392400637625 / 562949953421312) = 1283174050079703 / 70368744177664"
    by (rule round_double_eval[where e = 4 and m = "5132696200318812"])
       (simp_all add: rne_def Let_def floor_numeral_div power_int_minus_divide)
  show ?thesis by (simp add: generated_row_def toFixed2_def Let_def rd String_num_eval)
qed

section \<open>The row generator\<close>

text \<open>
  Claim C5. The row generator returns exactly 100 records whose ids are
  1, 2, ..., 100 in this order (so they are unique); the two tables hold 10
  different city names and 10 different product names; for every generated record the name is
  \<open>Cliente\<close>, a space and the id in decimal, the city is one of the 10 city names
  and the product one of the 10 product names. When every value of the random source
  is a double in \<open>[0, 1)\<close>, the age of every record is an integer from 18 to 77 and
  the amount is a text of digits, a point and two digits, which \<open>toFixed(2)\<close> makes
  of a value \<open>x\<close> with \<open>0 \<le> x < 1000\<close> (the double of the product).
\<close>

theorem generateData_spec:
  "length (generateData isoDate rnd) = 100 \<and>
   map id' (generateData isoDate rnd) = [1..<101] \<and>
   distinct (map id' (generateData isoDate rnd)) \<and>
   length cities = 10 \<and> distinct cities \<and>
   length products = 10 \<and> distinct products \<and>
   (\<forall>r \<in> set (generateData isoDate rnd).
      name r = ''Cliente '' @ String_num (id' r) \<and>
      city r \<in> set cities \<and>
      product r \<in> set products) \<and>
   (in_unit rnd \<longrightarrow>
      (\<forall>r \<in> set (generateData isoDate rnd).
         18 \<le> age r \<and> age r \<le> 77 \<and>
         is_decimal2 (amount r) \<and>
         (\<exists>x. 0 \<le> x \<and> x < 1000 \<and> amount r = toFixed2 x)))"
proof -
  have len: "length (generateData isoDate rnd) = 100"
    by (rule generateData_length)
  have ids: "map id' (generateData isoDate rnd) = [1..<101]"
    by (rule generateData_ids)
  have dist: "distinct (map id' (generateData isoDate rnd))"
    by (simp only: ids distinct_upt)
  have fixed: "\<forall>r \<in> set (generateData isoDate rnd).
      name r = ''Cliente '' @ String_num (id' r) \<and> city r \<in> set cities \<and> product r \<in> set products"
  proof
    fix r assume "r \<in> set (generateData isoDate rnd)"
    then obtain i where r: "r = generated_row isoDate (rnd (2 * (i - 1))) (rnd (2 * (i - 1) + 1)) i"
      by (auto simp: generateData_set)
    show "name r = ''Cliente '' @ String_num (id' r) \<and> city r \<in> set cities \<and> product r \<in> set products"
      unfolding r generated_row_def
      using nth_mem[OF cities_nth(1)[of i]] nth_mem[OF products_nth(1)[of i]] by simp
  qed
  have random: "\<forall>r \<in> set (generateData isoDate rnd).
         18 \<le> age r \<and> age r \<le> 77 \<and> is_decimal2 (amount r) \<and>
         (\<exists>x. 0 \<le> x \<and> x < 1000 \<and> amount r = toFixed2 x)" if u: "in_unit rnd"
  proof
    fix r assume "r \<in> set (generateData isoDate rnd)"
    then obtain i where r: "r = generated_row isoDate (rnd (2 * (i - 1))) (rnd (2 * (i - 1) + 1)) i"
      by (auto simp: generateData_set)
    let ?a = "rnd (2 * (i - 1))" and ?b = "rnd (2 * (i - 1) + 1)"
    from u have a: "is_double ?a" "0 \<le> ?a" "?a < 1" and b: "is_double ?b" "0 \<le> ?b" "?b < 1"
      by (simp_all add: in_unit_def)
    have age: "18 \<le> age r \<and> age r \<le> 77"
      using age_bounds[OF a] by (simp add: r generated_row_def)
    from amount_bounds[OF b]
    have x: "0 \<le> round_double (?b * 1000)" "round_double (?b * 1000) < 1000" by simp_all
    have am: "amount r = toFixed2 (round_double (?b * 1000))" by (simp add: r generated_row_def)
    have "is_decimal2 (amount r)" unfolding am by (rule is_decimal2_toFixed2[OF x(1)])
    with age am x show "18 \<le> age r \<and> age r \<le> 77 \<and> is_decimal2 (amount r) \<and>
         (\<exists>x. 0 \<le> x \<and> x < 1000 \<and> amount r = toFixed2 x)" by blast
  qed
  from len ids dist cities_nth(2) products_nth(2) tables_distinct fixed random
  show ?thesis by blast
qed

text \<open>
  The third row of a run on a UTC host whose random source always returns one half.
\<close>

theorem generateData_spec_witness:
  "in_unit (\<lambda>k. 1 / 2) \<and>
   generateData isoDate_UTC (\<lambda>k. 1 / 2) ! 2 \<in> set (generateData isoDate_UTC (\<lambda>k. 1 / 2)) \<and>
   name (generateData isoDate_UTC (\<lambda>k. 1 / 2) ! 2) = ''Cliente 3'' \<and>
   age (generateData isoDate_UTC (\<lambda>k. 1 / 2) ! 2) = 48 \<and>
   18 \<le> age (generateData isoDate_UTC (\<lambda>k. 1 / 2) ! 2) \<and>
   age (generateData isoDate_UTC (\<lambda>k. 1 / 2) ! 2) \<le> 77 \<and>
   city (generateData isoDate_UTC (\<lambda>k. 1 / 2) ! 2) = ''Porto Alegre'' \<and>
   city (generateData isoDate_UTC (\<lambda>k. 1 / 2) ! 2) \<in> set cities \<and>
   amount (generateData isoDate_UTC (\<lambda>k. 1 / 2) ! 2) = ''500.00'' \<and>
   is_decimal2 (amount (generateData isoDate_UTC (\<lambda>k. 1 / 2) ! 2))"
proof -
  let ?g = "generateData isoDate_UTC (\<lambda>k. 1 / 2)"
  have u: "in_unit (\<lambda>k. 1 / 2)" by (rule in_unit_half)
  have spec: "length ?g = 100"
    "\<forall>r \<in> set ?g. name r = ''Cliente '' @ String_num (id' r) \<and> city r \<in> set cities \<and>
        product r \<in> set products"
    "\<forall>r \<in> set ?g. 18 \<le> age r \<and> age r \<le> 77 \<and> is_decimal2 (amount r) \<and>
         (\<exists>x. 0 \<le> x \<and> x < 1000 \<and> amount r = toFixed2 x)"
    using generateData_spec[of isoDate_UTC "\<lambda>k. 1 / 2"] u by blast+
  from spec(1) have m: "?g ! 2 \<in> set ?g" by simp
  have g2: "?g ! 2 = generated_row isoDate_UTC (1 / 2) (1 / 2) 3"
    by (simp add: generateData_nth)
  have v: "name (?g ! 2) = ''Cliente 3''" "age (?g ! 2) = 48" "city (?g ! 2) = ''Porto Alegre''"
    "amount (?g ! 2) = ''500.00''"
    unfolding g2
    by (simp_all add: generated_row_def cities_def toFixed2_def Let_def String_num_eval
        round_double_small_int)
  from u m v spec(2,3) show ?thesis by blast
qed

text \<open>
  Claim C6. For every record the row generator produces, the active field is false
  if and only if the record's id is divisible by 3.
\<close>

theorem generateData_active:
  "\<forall>r \<in> set (generateData isoDate rnd). (active r = False) = (3 dvd id' r)"
  by (auto simp: generateData_set generated_row_def mod_eq_0_iff_dvd)

text \<open>The rows with ids 3 and 4 of a run.\<close>

theorem generateData_active_witness:
  "generateData isoDate_UTC (\<lambda>k. 0) ! 2 \<in> set (generateData isoDate_UTC (\<lambda>k. 0)) \<and>
   id' (generateData isoDate_UTC (\<lambda>k. 0) ! 2) = 3 \<and>
   active (generateData isoDate_UTC (\<lambda>k. 0) ! 2) = False \<and>
   generateData isoDate_UTC (\<lambda>k. 0) ! 3 \<in> set (generateData isoDate_UTC (\<lambda>k. 0)) \<and>
   id' (generateData isoDate_UTC (\<lambda>k. 0) ! 3) = 4 \<and>
   active (generateData isoDate_UTC (\<lambda>k. 0) ! 3) = True"
proof -
  let ?g = "generateData isoDate_UTC (\<lambda>k. 0)"
  have m: "?g ! 2 \<in> set ?g" "?g ! 3 \<in> set ?g"
    by (simp_all add: generateData_length)
  have i: "id' (?g ! 2) = 3" "id' (?g ! 3) = 4"
    by (simp_all add: generateData_nth generated_row_def)
  from generateData_active[of isoDate_UTC "\<lambda>k. 0"] m
  have "(active (?g ! 2) = False) = (3 dvd id' (?g ! 2))"
    and "(active (?g ! 3) = False) = (3 dvd id' (?g ! 3))"
    by blast+
  with i have "active (?g ! 2) = False" "active (?g ! 3) = True" by simp_all
  with m i show ?thesis by blast
qed

text \<open>
  Claim C9. Two runs of the row generator on the same host, whatever the values
  their random sources return, give sequences that agree record by record on id,
  name, city, product, active and joined: these six fields of the record at
  index \<open>i\<close> are functions of \<open>i\<close> alone, the ones written out below. Only age and
  amount depend on the random source.
\<close>

theorem generateData_fixed_fields:
  "map fixed_fields (generateData isoDate rnd1) = map fixed_fields (generateData isoDate rnd2) \<and>
   map fixed_fields (generateData isoDate rnd1) =
     map (\<lambda>i. (i, ''Cliente '' @ String_num i, cities ! (i mod 10), products ! (i mod 10),
                i mod 3 \<noteq> 0, isoDate (2020 + i mod 6) (i mod 12) (i mod 28 + 1)))
       [1..<101]"
  by (simp add: generateData_eq fixed_fields_def generated_row_def cities_nth(2) products_nth(2))

section \<open>Adding a row\<close>

lemma nextId_Nil: "nextId maxArgs [] = Inr 1"
  by (simp add: nextId_def double_add_exact)

lemma nextId_RangeError: "maxArgs < length prev \<Longrightarrow> nextId maxArgs prev = Inl RangeError"
  by (cases prev) (simp_all add: nextId_def)

lemma nextId_Max:
  "prev \<noteq> [] \<Longrightarrow> length prev \<le> maxArgs \<Longrightarrow>
   nextId maxArgs prev = Inr (double_add (Max (set (map id' prev))) 1)"
proof (cases prev)
  case Nil
  assume "prev \<noteq> []"
  with Nil show ?thesis by simp
next
  case (Cons r rs)
  assume "length prev \<le> maxArgs"
  moreover have "Max (set (id' r # map id' rs)) = fold max (map id' rs) (id' r)"
    by (rule Max.set_eq_fold)
  ultimately show ?thesis using Cons by (simp add: nextId_def)
qed

lemma Max_ids_bound:
  "prev \<noteq> [] \<Longrightarrow> \<forall>r \<in> set prev. id' r < b \<Longrightarrow> Max (set (map id' prev)) < b"
  by (subst Max_less_iff) auto

lemma nextId_exact:
  assumes "prev \<noteq> []" and "length prev \<le> maxArgs"
    and "\<forall>r \<in> set prev. id' r < 9007199254740992"
  shows "nextId maxArgs prev = Inr (Max (set (map id' prev)) + 1)"
proof -
  from Max_ids_bound[OF assms(1,3)] have "Max (set (map id' prev)) + 1 \<le> 9007199254740992"
    by simp
  then have "double_add (Max (set (map id' prev))) 1 = Max (set (map id' prev)) + 1"
    by (rule double_add_exact)
  with nextId_Max[OF assms(1,2)] show ?thesis by simp
qed

lemma nextId_greater:
  assumes "nextId maxArgs prev = Inr n" and "\<forall>r \<in> set prev. id' r < 9007199254740992"
    and "r \<in> set prev"
  shows "id' r < n"
proof -
  from assms(3) have ne: "prev \<noteq> []" by auto
  have len: "length prev \<le> maxArgs"
  proof (rule ccontr)
    assume "\<not> length prev \<le> maxArgs"
    then have "nextId maxArgs prev = Inl RangeError" by (simp add: nextId_RangeError)
    with assms(1) show False by simp
  qed
  from nextId_exact[OF ne len assms(2)] assms(1) have n: "n = Max (set (map id' prev)) + 1" by simp
  from assms(3) have "id' r \<le> Max (set (map id' prev))" by (intro Max_ge) auto
  with n show ?thesis by simp
qed

lemma nextId_fresh:
  "nextId maxArgs prev = Inr n \<Longrightarrow> \<forall>r \<in> set prev. id' r < 9007199254740992 \<Longrightarrow>
   n \<notin> set (map id' prev)"
  using nextId_greater by fastforce

lemma nextId_returns: "length prev \<le> maxArgs \<Longrightarrow> \<exists>n. nextId maxArgs prev = Inr n"
  by (cases prev) (simp_all add: nextId_def)

lemma onAddRow_Inr:
  "onAddRow maxArgs r1 r2 today prev = Inr rows \<longleftrightarrow>
     (\<exists>n. nextId maxArgs prev = Inr n \<and> rows = newRow r1 r2 today n # prev)"
  by (auto simp: onAddRow_def split: sum.splits)

lemma onAddRow_returns: "length prev \<le> maxArgs \<Longrightarrow> \<exists>rows. onAddRow maxArgs r1 r2 today prev = Inr rows"
  using nextId_returns[of prev maxArgs] by (auto simp: onAddRow_Inr)

lemma onAddRow_RangeError:
  "maxArgs < length prev \<Longrightarrow> onAddRow maxArgs r1 r2 today prev = Inl RangeError"
  by (simp add: onAddRow_def nextId_RangeError)

lemma newRow_id: "id' (newRow r1 r2 today n) = n"
  by (simp add: newRow_def)

lemma sample_ids: "id' (generated_row d a b i) = i"
  by (simp add: generated_row_def)

text \<open>
  Claim C1, amended. For every non-empty row sequence whose ids are all below
  \<open>2^53\<close> and whose length is within the engine's limit on call arguments, the
  add-row operation returns a sequence one longer, whose head is the new record,
  whose remaining elements are the previous records in their order, and the id of
  the new record is the maximum id among the previous records plus 1. For the
  empty sequence it returns the new record alone, with id 1.
\<close>

theorem onAddRow_spec:
  "(prev \<noteq> [] \<and> length prev \<le> maxArgs \<and> (\<forall>r \<in> set prev. id' r < 9007199254740992) \<longrightarrow>
      (\<exists>rows. onAddRow maxArgs r1 r2 today prev = Inr rows \<and>
              length rows = length prev + 1 \<and>
              rows = hd rows # prev \<and>
              tl rows = prev \<and>
              id' (hd rows) = Max (set (map id' prev)) + 1)) \<and>
   (\<exists>rows. onAddRow maxArgs r1 r2 today [] = Inr rows \<and>
           length rows = 1 \<and>
           id' (hd rows) = 1)"
proof -
  have a: "\<exists>rows. onAddRow maxArgs r1 r2 today prev = Inr rows \<and>
              length rows = length prev + 1 \<and> rows = hd rows # prev \<and> tl rows = prev \<and>
              id' (hd rows) = Max (set (map id' prev)) + 1"
    if "prev \<noteq> []" "length prev \<le> maxArgs" "\<forall>r \<in> set prev. id' r < 9007199254740992"
  proof -
    from nextId_exact[OF that]
    have "onAddRow maxArgs r1 r2 today prev =
        Inr (newRow r1 r2 today (Max (set (map id' prev)) + 1) # prev)"
      by (simp add: onAddRow_def)
    then show ?thesis by (simp add: newRow_id)
  qed
  have e: "\<exists>rows. onAddRow maxArgs r1 r2 today [] = Inr rows \<and> length rows = 1 \<and> id' (hd rows) = 1"
    by (simp add: onAddRow_def nextId_Nil newRow_id)
  from a e show ?thesis by blast
qed

text \<open>
  Adding to the rows with ids 2, 7, 5 on an engine that takes 65536 arguments gives
  id 8.
\<close>

theorem onAddRow_spec_witness:
  "[generated_row isoDate_UTC 0 0 2, generated_row isoDate_UTC 0 0 7, generated_row isoDate_UTC 0 0 5] \<noteq> [] \<and>
   length [generated_row isoDate_UTC 0 0 2, generated_row isoDate_UTC 0 0 7,
           generated_row isoDate_UTC 0 0 5] \<le> (65536::nat) \<and>
   Max (set (map id' [generated_row isoDate_UTC 0 0 2, generated_row isoDate_UTC 0 0 7,
                       generated_row isoDate_UTC 0 0 5])) = 7 \<and>
   onAddRow 65536 (1 / 2) (1 / 4) ''2025-01-01''
      [generated_row isoDate_UTC 0 0 2, generated_row isoDate_UTC 0 0 7,
       generated_row isoDate_UTC 0 0 5] =
     Inr [newRow (1 / 2) (1 / 4) ''2025-01-01'' 8,
          generated_row isoDate_UTC 0 0 2, generated_row isoDate_UTC 0 0 7,
          generated_row isoDate_UTC 0 0 5]"
proof -
  let ?prev = "[generated_row isoDate_UTC 0 0 2, generated_row isoDate_UTC 0 0 7, generated_row isoDate_UTC 0 0 5]"
  have ne: "?prev \<noteq> []" by simp
  have len: "length ?prev \<le> (65536::nat)" by simp
  have b: "\<forall>r \<in> set ?prev. id' r < 9007199254740992" by (simp add: sample_ids)
  have mx: "Max (set (map id' ?prev)) = 7" by (simp add: sample_ids)
  from onAddRow_spec[of ?prev 65536 "1 / 2" "1 / 4" "''2025-01-01''"] ne len b
  obtain rows where r: "onAddRow 65536 (1 / 2) (1 / 4) ''2025-01-01'' ?prev = Inr rows"
    and i: "id' (hd rows) = Max (set (map id' ?prev)) + 1"
    by blast
  from r obtain n where rows: "rows = newRow (1 / 2) (1 / 4) ''2025-01-01'' n # ?prev"
    by (auto simp: onAddRow_Inr)
  with i mx have "n = 8" by (simp add: newRow_id)
  with r rows have "onAddRow 65536 (1 / 2) (1 / 4) ''2025-01-01'' ?prev =
      Inr (newRow (1 / 2) (1 / 4) ''2025-01-01'' 8 # ?prev)" by simp
  with ne len mx show ?thesis by simp
qed

text \<open>
  At id \<open>2^53 = 9007199254740992\<close> the claim as it stands fails: the sum
  \<open>2^53 + 1\<close> is not a double and rounds to \<open>2^53\<close>, so the new record gets the
  maximum id itself, not the maximum plus 1. The one-row sequence with that id is
  one the component can hold (\<open>reachable_2_53\<close> below).
\<close>

theorem onAddRow_id_counterexample:
  "Max (set (map id' [newRow 0 0 ''2025-01-01'' 9007199254740992])) = 9007199254740992 \<and>
   onAddRow 65536 0 0 ''2025-01-02'' [newRow 0 0 ''2025-01-01'' 9007199254740992] =
     Inr [newRow 0 0 ''2025-01-02'' 9007199254740992, newRow 0 0 ''2025-01-01'' 9007199254740992] \<and>
   id' (newRow 0 0 ''2025-01-02'' 9007199254740992) \<noteq>
     Max (set (map id' [newRow 0 0 ''2025-01-01'' 9007199254740992])) + 1"
  by (simp add: onAddRow_def nextId_def newRow_id double_add_2_53)

text \<open>
  Claim C10. Every record the add-row operation creates has active set to true,
  also when its new id is divisible by 3; its city is the entry at index
  \<open>id mod 4\<close> of the four-element city list written in the handler, and its
  product the entry at index \<open>id mod 3\<close> of the three-element product list. The
  rule that ties active to the id modulo 3 belongs to the generator only. The
  operation creates a record whenever the sequence is within the engine's limit
  on call arguments.
\<close>

theorem onAddRow_new_row:
  "(length prev \<le> maxArgs \<longrightarrow> (\<exists>rows. onAddRow maxArgs r1 r2 today prev = Inr rows)) \<and>
   (onAddRow maxArgs r1 r2 today prev = Inr rows \<longrightarrow>
      active (hd rows) = True \<and>
      (3 dvd id' (hd rows) \<longrightarrow> active (hd rows) = True) \<and>
      city (hd rows) =
        [''S'' @ [CHR 0xE3] @ ''o Paulo'', ''Rio de Janeiro'', ''Belo Horizonte'', ''Porto Alegre'']
          ! (id' (hd rows) mod 4) \<and>
      city (hd rows) \<in>
        set [''S'' @ [CHR 0xE3] @ ''o Paulo'', ''Rio de Janeiro'', ''Belo Horizonte'', ''Porto Alegre''] \<and>
      product (hd rows) =
        [''Vinho'', ''Caf'' @ [CHR 0xE9], ''Queijo''] ! (id' (hd rows) mod 3) \<and>
      product (hd rows) \<in> set [''Vinho'', ''Caf'' @ [CHR 0xE9], ''Queijo''])"
proof -
  let ?cs = "[''S'' @ [CHR 0xE3] @ ''o Paulo'', ''Rio de Janeiro'', ''Belo Horizonte'', ''Porto Alegre'']"
  let ?ps = "[''Vinho'', ''Caf'' @ [CHR 0xE9], ''Queijo'']"
  have new: "active (hd rows) = True \<and>
      (3 dvd id' (hd rows) \<longrightarrow> active (hd rows) = True) \<and>
      city (hd rows) = ?cs ! (id' (hd rows) mod 4) \<and> city (hd rows) \<in> set ?cs \<and>
      product (hd rows) = ?ps ! (id' (hd rows) mod 3) \<and> product (hd rows) \<in> set ?ps"
    if "onAddRow maxArgs r1 r2 today prev = Inr rows"
  proof -
    from that obtain n where h: "hd rows = newRow r1 r2 today n" by (auto simp: onAddRow_Inr)
    have a: "active (hd rows) = True" by (simp add: h newRow_def)
    have c: "city (hd rows) = ?cs ! (id' (hd rows) mod 4)" by (simp add: h newRow_def)
    have p: "product (hd rows) = ?ps ! (id' (hd rows) mod 3)" by (simp add: h newRow_def)
    have "id' (hd rows) mod 4 < length ?cs" by simp
    then have cm: "?cs ! (id' (hd rows) mod 4) \<in> set ?cs" by (rule nth_mem)
    have "id' (hd rows) mod 3 < length ?ps" by simp
    then have pm: "?ps ! (id' (hd rows) mod 3) \<in> set ?ps" by (rule nth_mem)
    from a c p cm pm show ?thesis by (simp only:) simp
  qed
  from onAddRow_returns[of prev maxArgs r1 r2 today] new show ?thesis by blast
qed

text \<open>
  Adding to the rows with ids 2 and 1 creates the record with id 3: it is active,
  where the generator's record with id 3 is not.
\<close>

theorem onAddRow_new_row_witness:
  "onAddRow 65536 0 0 ''2025-01-01'' [generated_row isoDate_UTC 0 0 2, generated_row isoDate_UTC 0 0 1] =
     Inr [newRow 0 0 ''2025-01-01'' 3, generated_row isoDate_UTC 0 0 2, generated_row isoDate_UTC 0 0 1] \<and>
   3 dvd id' (newRow 0 0 ''2025-01-01'' 3) \<and>
   active (newRow 0 0 ''2025-01-01'' 3) = True \<and>
   city (newRow 0 0 ''2025-01-01'' 3) = ''Porto Alegre'' \<and>
   product (newRow 0 0 ''2025-01-01'' 3) = ''Vinho'' \<and>
   active (generated_row isoDate_UTC 0 0 3) = False"
proof -
  let ?prev = "[generated_row isoDate_UTC 0 0 2, generated_row isoDate_UTC 0 0 1]"
  let ?new = "newRow 0 0 ''2025-01-01'' 3"
  have "nextId 65536 ?prev = Inr 3"
    using nextId_exact[of ?prev 65536] by (simp add: sample_ids)
  then have r: "onAddRow 65536 0 0 ''2025-01-01'' ?prev = Inr (?new # ?prev)"
    by (simp add: onAddRow_def)
  have i: "id' ?new = 3" by (rule newRow_id)
  then have d: "3 dvd id' ?new" by simp
  from onAddRow_new_row[of ?prev 65536 0 0 "''2025-01-01''" "?new # ?prev"] r
  have a: "3 dvd id' ?new \<longrightarrow> active ?new = True"
    and c: "city ?new = [''S'' @ [CHR 0xE3] @ ''o Paulo'', ''Rio de Janeiro'', ''Belo Horizonte'', ''Porto Alegre''] ! (id' ?new mod 4)"
    and p: "product ?new = [''Vinho'', ''Caf'' @ [CHR 0xE9], ''Queijo''] ! (id' ?new mod 3)"
    by simp_all
  from a d have a': "active ?new = True" by blast
  from c i have c': "city ?new = ''Porto Alegre''" by simp
  from p i have p': "product ?new = ''Vinho''" by simp
  have g: "active (generated_row isoDate_UTC 0 0 3) = False" by (simp add: generated_row_def)
  from r d a' c' p' g show ?thesis by simp
qed

section \<open>Deleting and toggling a row\<close>

lemma toggle_active_ids: "map id' (toggle_active tid prev) = map id' prev"
  by (induction prev) (simp_all add: toggle_active_def)

lemma delete_row_distinct: "distinct (map id' prev) \<Longrightarrow> distinct (map id' (delete_row tid prev))"
  by (simp add: delete_row_def distinct_map_filter)

text \<open>
  No id renders as the empty string, so the early return on an empty \<open>data-id\<close>
  agrees with what the filter and the map would do.
\<close>

lemma delete_row_empty_id: "delete_row [] prev = prev"
  by (simp add: delete_row_def String_num_nonempty)

lemma toggle_active_empty_id: "toggle_active [] prev = prev"
  by (simp add: toggle_active_def String_num_nonempty map_idI)

lemma onCellClicked_del:
  "onCellClicked True (Target (Some ''del'') (Some tid)) prev = delete_row tid prev"
  by (cases "tid = []") (simp_all add: delete_row_empty_id)

lemma onCellClicked_del_declined:
  "onCellClicked False (Target (Some ''del'') (Some tid)) prev = prev"
  by simp

lemma onCellClicked_edit:
  "onCellClicked confirmed (Target (Some ''edit'') (Some tid)) prev = toggle_active tid prev"
  by (cases "tid = []") (simp_all add: toggle_active_empty_id)

lemma onCellClicked_cases:
  "onCellClicked confirmed ev prev = prev \<or>
   (\<exists>tid. onCellClicked confirmed ev prev = delete_row tid prev) \<or>
   (\<exists>tid. onCellClicked confirmed ev prev = toggle_active tid prev)"
proof (cases ev)
  case NoEvent
  then show ?thesis by simp
next
  case NoTarget
  then show ?thesis by simp
next
  case (Target a i)
  show ?thesis
  proof (cases a)
    case None
    with Target show ?thesis by simp
  next
    case (Some action)
    show ?thesis
    proof (cases i)
      case None
      with Target Some show ?thesis by simp
    next
      case (Some tid)
      with Target \<open>a = Some action\<close> show ?thesis
        by (auto simp: Let_def)
    qed
  qed
qed

text \<open>With pairwise distinct ids, exactly one record has a given id of the sequence.\<close>

lemma delete_one:
  "distinct (map id' prev) \<Longrightarrow> r \<in> set prev \<Longrightarrow>
   length (filter (\<lambda>x. id' x \<noteq> id' r) prev) + 1 = length prev"
proof (induction prev)
  case Nil
  then show ?case by simp
next
  case (Cons a prev)
  from Cons.prems(1) have na: "id' a \<notin> id' ` set prev" and d: "distinct (map id' prev)"
    by simp_all
  show ?case
  proof (cases "id' a = id' r")
    case True
    with na have "\<forall>x \<in> set prev. id' x \<noteq> id' r" by (metis imageI)
    then have "filter (\<lambda>x. id' x \<noteq> id' r) prev = prev" by (simp add: filter_id_conv)
    with True show ?thesis by simp
  next
    case False
    with Cons.prems(2) have "r \<in> set prev" by auto
    from Cons.IH[OF d this] False show ?thesis by simp
  qed
qed

lemma delete_row_length:
  assumes "distinct (map id' prev)" and "\<exists>r \<in> set prev. String_num (id' r) = tid"
  shows "length (delete_row tid prev) + 1 = length prev"
proof -
  from assms(2) obtain r where r: "r \<in> set prev" and t: "tid = String_num (id' r)" by auto
  have "delete_row tid prev = filter (\<lambda>x. id' x \<noteq> id' r) prev"
    by (simp add: delete_row_def t String_num_eq_iff)
  with delete_one[OF assms(1) r] show ?thesis by simp
qed


section \<open>Uniqueness of ids\<close>

lemma onCellClicked_distinct:
  "distinct (map id' prev) \<Longrightarrow> distinct (map id' (onCellClicked confirmed ev prev))"
  using onCellClicked_cases[of confirmed ev prev]
  by (auto simp: delete_row_distinct toggle_active_ids)

lemma delete_row_ids: "set (map id' (delete_row tid prev)) \<subseteq> set (map id' prev)"
  by (auto simp: delete_row_def)

lemma onCellClicked_ids: "set (map id' (onCellClicked confirmed ev prev)) \<subseteq> set (map id' prev)"
proof -
  from onCellClicked_cases[of confirmed ev prev]
  consider "onCellClicked confirmed ev prev = prev"
    | tid where "onCellClicked confirmed ev prev = delete_row tid prev"
    | tid where "onCellClicked confirmed ev prev = toggle_active tid prev"
    by blast
  then show ?thesis
  proof cases
    case 1
    then show ?thesis by simp
  next
    case 2
    then show ?thesis by (simp only: delete_row_ids)
  next
    case 3
    then show ?thesis by (simp only: toggle_active_ids)
  qed
qed

lemma onAddRow_distinct:
  assumes "distinct (map id' prev)" and "\<forall>r \<in> set prev. id' r < 9007199254740992"
    and "onAddRow maxArgs r1 r2 today prev = Inr rows"
  shows "id' (hd rows) \<notin> set (map id' prev)" and "distinct (map id' rows)"
proof -
  from assms(3) obtain n where n: "nextId maxArgs prev = Inr n"
    and rows: "rows = newRow r1 r2 today n # prev"
    by (auto simp: onAddRow_Inr)
  from nextId_fresh[OF n assms(2)] have f: "n \<notin> set (map id' prev)" .
  show "id' (hd rows) \<notin> set (map id' prev)" using f by (simp add: rows newRow_id)
  show "distinct (map id' rows)" using f assms(1) by (simp add: rows newRow_id)
qed

lemma generateData_distinct: "distinct (map id' (generateData isoDate rnd))"
  by (simp only: generateData_ids distinct_upt)

text \<open>
  Claim C8, amended. The ids of the generated sequence are pairwise distinct. On
  a sequence with pairwise distinct ids, delete, toggle, any cell click and reset
  give a sequence with pairwise distinct ids; so does add-row when the ids are all
  below \<open>2^53\<close>, where the id it picks, the maximum plus 1, is not among the
  existing ids.
\<close>

theorem ids_distinct_invariant:
  "distinct (map id' (generateData isoDate rnd)) \<and>
   (distinct (map id' prev) \<longrightarrow>
      distinct (map id' (delete_row tid prev)) \<and>
      distinct (map id' (toggle_active tid prev)) \<and>
      distinct (map id' (onCellClicked confirmed ev prev)) \<and>
      distinct (map id' (onResetData confirmed isoDate rnd prev)) \<and>
      ((\<forall>r \<in> set prev. id' r < 9007199254740992) \<and>
       onAddRow maxArgs r1 r2 today prev = Inr rows \<longrightarrow>
         id' (hd rows) \<notin> set (map id' prev) \<and> distinct (map id' rows)))"
proof -
  have r: "distinct (map id' (onResetData confirmed isoDate rnd prev))" if "distinct (map id' prev)"
    using that by (simp add: onResetData_def generateData_distinct)
  show ?thesis
    using generateData_distinct[of isoDate rnd]
      onAddRow_distinct[of prev maxArgs r1 r2 today rows] delete_row_distinct[of prev tid]
      toggle_active_ids[of tid prev] onCellClicked_distinct[of prev confirmed ev] r
    by simp
qed

text \<open>The rows with ids 2, 7, 5 under each handler.\<close>

theorem ids_distinct_invariant_witness:
  "distinct (map id' [generated_row isoDate_UTC 0 0 2, generated_row isoDate_UTC 0 0 7, generated_row isoDate_UTC 0 0 5]) \<and>
   onAddRow 65536 0 0 ''2025-01-01''
      [generated_row isoDate_UTC 0 0 2, generated_row isoDate_UTC 0 0 7, generated_row isoDate_UTC 0 0 5] =
     Inr [newRow 0 0 ''2025-01-01'' 8,
          generated_row isoDate_UTC 0 0 2, generated_row isoDate_UTC 0 0 7, generated_row isoDate_UTC 0 0 5] \<and>
   distinct (map id' [newRow 0 0 ''2025-01-01'' 8,
          generated_row isoDate_UTC 0 0 2, generated_row isoDate_UTC 0 0 7, generated_row isoDate_UTC 0 0 5]) \<and>
   distinct (map id' (onCellClicked True (Target (Some ''del'') (Some ''7''))
      [generated_row isoDate_UTC 0 0 2, generated_row isoDate_UTC 0 0 7, generated_row isoDate_UTC 0 0 5])) \<and>
   distinct (map id' (onCellClicked True (Target (Some ''edit'') (Some ''7''))
      [generated_row isoDate_UTC 0 0 2, generated_row isoDate_UTC 0 0 7, generated_row isoDate_UTC 0 0 5])) \<and>
   distinct (map id' (onResetData True isoDate_UTC (\<lambda>k. 0)
      [generated_row isoDate_UTC 0 0 2, generated_row isoDate_UTC 0 0 7, generated_row isoDate_UTC 0 0 5]))"
proof -
  let ?prev = "[generated_row isoDate_UTC 0 0 2, generated_row isoDate_UTC 0 0 7, generated_row isoDate_UTC 0 0 5]"
  let ?rows = "newRow 0 0 ''2025-01-01'' 8 # ?prev"
  have d: "distinct (map id' ?prev)" by (simp add: sample_ids)
  have b: "\<forall>r \<in> set ?prev. id' r < 9007199254740992" by (simp add: sample_ids)
  have "nextId 65536 ?prev = Inr 8"
    using nextId_exact[of ?prev 65536] by (simp add: sample_ids)
  then have a: "onAddRow 65536 0 0 ''2025-01-01'' ?prev = Inr ?rows" by (simp add: onAddRow_def)
  from ids_distinct_invariant[of isoDate_UTC "\<lambda>k. 0" ?prev "''7''" True
      "Target (Some ''del'') (Some ''7'')" 65536 0 0 "''2025-01-01''" ?rows] d b a
  have a': "distinct (map id' ?rows)"
    and c: "distinct (map id' (onCellClicked True (Target (Some ''del'') (Some ''7'')) ?prev))"
    and r: "distinct (map id' (onResetData True isoDate_UTC (\<lambda>k. 0) ?prev))"
    by blast+
  from ids_distinct_invariant[of isoDate_UTC "\<lambda>k. 0" ?prev "''7''" True
      "Target (Some ''edit'') (Some ''7'')" 65536 0 0 "''2025-01-01''" ?rows] d
  have e: "distinct (map id' (onCellClicked True (Target (Some ''edit'') (Some ''7'')) ?prev))"
    by blast
  from d a a' c e r show ?thesis by simp
qed

text \<open>
  At id \<open>2^53\<close> the claim as it stands fails: add-row on the one-row sequence
  with that id, whose ids are distinct, returns two rows with the same id.
\<close>

theorem ids_collision_counterexample:
  "distinct (map id' [newRow 0 0 ''2025-01-01'' 9007199254740992]) \<and>
   onAddRow 65536 0 0 ''2025-01-02'' [newRow 0 0 ''2025-01-01'' 9007199254740992] =
     Inr [newRow 0 0 ''2025-01-02'' 9007199254740992, newRow 0 0 ''2025-01-01'' 9007199254740992] \<and>
   \<not> distinct (map id'
     [newRow 0 0 ''2025-01-02'' 9007199254740992, newRow 0 0 ''2025-01-01'' 9007199254740992])"
  by (simp add: onAddRow_def nextId_def newRow_id double_add_2_53)

subsection \<open>Invariants of the row sequences the component can hold\<close>

text \<open>
  As long as fewer than \<open>2^53 - 100\<close> calls of add-row have been made, every row
  sequence the component can hold has pairwise distinct ids, none above 100 plus
  the number of those calls.
\<close>

lemma reachable_ids:
  "reachable isoDate maxArgs n rows \<Longrightarrow> 100 + n < 9007199254740992 \<Longrightarrow>
   distinct (map id' rows) \<and> (\<forall>r \<in> set rows. id' r \<le> 100 + n)"
proof (induction rule: reachable.induct)
  case (mount rnd)
  have "\<forall>r \<in> set (generateData isoDate rnd). id' r \<le> 100"
    by (auto simp: generateData_set sample_ids)
  with generateData_distinct[of isoDate rnd] show ?case by simp
next
  case (add n prev r1 r2 today rows)
  from add.prems have n: "100 + n < 9007199254740992" by simp
  from add.IH[OF n] have d: "distinct (map id' prev)" and le: "\<forall>r \<in> set prev. id' r \<le> 100 + n"
    by simp_all
  from le n have b: "\<forall>r \<in> set prev. id' r < 9007199254740992" by auto
  from add.hyps(2) obtain k where k: "nextId maxArgs prev = Inr k"
    and rows: "rows = newRow r1 r2 today k # prev"
    by (auto simp: onAddRow_Inr)
  have kle: "k \<le> 100 + Suc n"
  proof (cases "prev = []")
    case True
    with k show ?thesis by (simp add: nextId_Nil)
  next
    case False
    have len: "length prev \<le> maxArgs"
    proof (rule ccontr)
      assume "\<not> length prev \<le> maxArgs"
      then have "nextId maxArgs prev = Inl RangeError" by (simp add: nextId_RangeError)
      with k show False by simp
    qed
    from nextId_exact[OF False len b] k have "k = Max (set (map id' prev)) + 1" by simp
    moreover from False le have "Max (set (map id' prev)) \<le> 100 + n" by (subst Max_le_iff) auto
    ultimately show ?thesis by simp
  qed
  from onAddRow_distinct(2)[OF d b add.hyps(2)] have "distinct (map id' rows)" .
  moreover from le kle have "\<forall>r \<in> set rows. id' r \<le> 100 + Suc n"
    by (auto simp: rows newRow_id)
  ultimately show ?case by simp
next
  case (click n prev confirmed ev)
  from click.IH[OF click.prems] have d: "distinct (map id' prev)"
    and le: "\<forall>r \<in> set prev. id' r \<le> 100 + n" by simp_all
  from onCellClicked_ids[of confirmed ev prev] le
  have "\<forall>r \<in> set (onCellClicked confirmed ev prev). id' r \<le> 100 + n" by auto
  with onCellClicked_distinct[OF d] show ?case by simp
next
  case (reset n prev confirmed rnd)
  from reset.IH[OF reset.prems] have d: "distinct (map id' prev)"
    and le: "\<forall>r \<in> set prev. id' r \<le> 100 + n" by simp_all
  have "\<forall>r \<in> set (generateData isoDate rnd). id' r \<le> 100 + n"
    by (auto simp: generateData_set sample_ids)
  with d le generateData_distinct[of isoDate rnd] show ?case by (simp add: onResetData_def)
qed

lemma reachable_distinct:
  "reachable isoDate maxArgs n rows \<Longrightarrow> 100 + n < 9007199254740992 \<Longrightarrow> distinct (map id' rows)"
  using reachable_ids by blast

text \<open>
  So on every such row sequence a confirmed delete of an id that is present
  shortens the sequence by exactly one.
\<close>

lemma reachable_delete_length:
  "reachable isoDate maxArgs n prev \<Longrightarrow> 100 + n < 9007199254740992 \<Longrightarrow>
   \<exists>r \<in> set prev. String_num (id' r) = tid \<Longrightarrow>
   length (onCellClicked True (Target (Some ''del'') (Some tid)) prev) + 1 = length prev"
  by (simp only: onCellClicked_del) (rule delete_row_length[OF reachable_distinct])

text \<open>
  The one-row sequence with id \<open>2^53\<close> is one the component can hold: delete the
  generated rows 1 to 99, then add a row and delete the older one, again and again.
\<close>

lemma delete_head:
  assumes "\<And>i. id' (g i) = i" and "k < 100"
  shows "onCellClicked True (Target (Some ''del'') (Some (String_num k))) (map g [k..<101]) =
     map g [Suc k..<101]"
proof -
  from assms(2) have u: "[k..<101] = k # [Suc k..<101]" by (simp add: upt_conv_Cons)
  have "\<forall>i \<in> set [Suc k..<101]. String_num (id' (g i)) \<noteq> String_num k"
    by (simp add: assms(1) String_num_eq_iff)
  then have "filter (\<lambda>r. String_num (id' r) \<noteq> String_num k) (map g [Suc k..<101]) = map g [Suc k..<101]"
    by (simp add: filter_map o_def filter_id_conv)
  then show ?thesis
    by (simp only: onCellClicked_del delete_row_def u list.map) (simp add: assms(1))
qed

lemma reachable_suffix:
  "j < 100 \<Longrightarrow>
   reachable isoDate maxArgs 0
     (map (\<lambda>i. generated_row isoDate (rnd (2 * (i - 1))) (rnd (2 * (i - 1) + 1)) i) [Suc j..<101])"
proof (induction j)
  case 0
  have "reachable isoDate maxArgs 0 (generateData isoDate rnd)" by (rule reachable.mount)
  then show ?case by (simp add: generateData_eq)
next
  case (Suc j)
  let ?g = "\<lambda>i. generated_row isoDate (rnd (2 * (i - 1))) (rnd (2 * (i - 1) + 1)) i"
  from Suc have r: "reachable isoDate maxArgs 0 (map ?g [Suc j..<101])" by simp
  from Suc.prems have k: "Suc j < 100" .
  have "onCellClicked True (Target (Some ''del'') (Some (String_num (Suc j)))) (map ?g [Suc j..<101]) =
     map ?g [Suc (Suc j)..<101]"
    by (rule delete_head[OF _ k]) (rule sample_ids)
  with reachable.click[OF r, of True "Target (Some ''del'') (Some (String_num (Suc j)))"]
  show ?case by simp
qed

lemma add_then_delete:
  assumes "reachable isoDate maxArgs n [p]" and "1 \<le> maxArgs" and "id' p < 9007199254740992"
  shows "reachable isoDate maxArgs (Suc n) [newRow r1 r2 today (id' p + 1)]"
proof -
  have "nextId maxArgs [p] = Inr (id' p + 1)"
    using nextId_exact[of "[p]" maxArgs] assms(2,3) by simp
  then have "onAddRow maxArgs r1 r2 today [p] = Inr [newRow r1 r2 today (id' p + 1), p]"
    by (simp add: onAddRow_def)
  from reachable.add[OF assms(1) this]
  have r: "reachable isoDate maxArgs (Suc n) [newRow r1 r2 today (id' p + 1), p]" .
  have "onCellClicked True (Target (Some ''del'') (Some (String_num (id' p))))
      [newRow r1 r2 today (id' p + 1), p] = [newRow r1 r2 today (id' p + 1)]"
    by (simp only: onCellClicked_del) (simp add: delete_row_def newRow_id String_num_eq_iff)
  with reachable.click[OF r, of True "Target (Some ''del'') (Some (String_num (id' p)))"]
  show ?thesis by simp
qed

lemma reachable_single:
  "1 \<le> maxArgs \<Longrightarrow> 101 + d \<le> 9007199254740992 \<Longrightarrow>
   reachable isoDate maxArgs (Suc d) [newRow r1 r2 today (101 + d)]"
proof (induction d)
  case 0
  have "reachable isoDate maxArgs 0
     (map (\<lambda>i. generated_row isoDate (0 :: rat) 0 i) [Suc 99..<101])"
    using reachable_suffix[of 99 isoDate maxArgs "\<lambda>k. 0"] by simp
  then have "reachable isoDate maxArgs 0 [generated_row isoDate 0 0 100]" by simp
  from add_then_delete[OF this "0.prems"(1), of r1 r2 today] show ?case
    by (simp add: sample_ids)
next
  case (Suc d)
  from Suc have r: "reachable isoDate maxArgs (Suc d) [newRow r1 r2 today (101 + d)]" by simp
  from Suc.prems(2) have b: "id' (newRow r1 r2 today (101 + d)) < 9007199254740992"
    by (simp add: newRow_id)
  from add_then_delete[OF r Suc.prems(1) b, of r1 r2 today] show ?case
    by (simp add: newRow_id)
qed

lemma reachable_2_53:
  "1 \<le> maxArgs \<Longrightarrow>
   reachable isoDate maxArgs 9007199254740892 [newRow r1 r2 today 9007199254740992]"
  using reachable_single[of maxArgs 9007199254740891 isoDate r1 r2 today] by simp

section \<open>The delete and toggle operations\<close>



text \<open>
  Claim C3. For every row sequence and every target id, the toggle operation
  returns a sequence of the same length in the same order; at every position
  whose record's id matches the target (compared as strings) the record has its
  active field negated and its id, name, age, city, product, amount and joined
  fields unchanged, and at every other position the record is unchanged. This
  holds whether or not the target id is present.
\<close>

theorem toggle_spec:
  "length (onCellClicked confirmed (Target (Some ''edit'') (Some tid)) prev) = length prev \<and>
   (\<forall>i < length prev.
      (String_num (id' (prev ! i)) = tid \<longrightarrow>
         onCellClicked confirmed (Target (Some ''edit'') (Some tid)) prev ! i =
           (prev ! i)\<lparr>active := \<not> active (prev ! i)\<rparr> \<and>
         active (onCellClicked confirmed (Target (Some ''edit'') (Some tid)) prev ! i) =
           (\<not> active (prev ! i)) \<and>
         id' (onCellClicked confirmed (Target (Some ''edit'') (Some tid)) prev ! i) = id' (prev ! i) \<and>
         name (onCellClicked confirmed (Target (Some ''edit'') (Some tid)) prev ! i) = name (prev ! i) \<and>
         age (onCellClicked confirmed (Target (Some ''edit'') (Some tid)) prev ! i) = age (prev ! i) \<and>
         city (onCellClicked confirmed (Target (Some ''edit'') (Some tid)) prev ! i) = city (prev ! i) \<and>
         product (onCellClicked confirmed (Target (Some ''edit'') (Some tid)) prev ! i) = product (prev ! i) \<and>
         amount (onCellClicked confirmed (Target (Some ''edit'') (Some tid)) prev ! i) = amount (prev ! i) \<and>
         joined (onCellClicked confirmed (Target (Some ''edit'') (Some tid)) prev ! i) = joined (prev ! i)) \<and>
      (String_num (id' (prev ! i)) \<noteq> tid \<longrightarrow>
         onCellClicked confirmed (Target (Some ''edit'') (Some tid)) prev ! i = prev ! i))"
  by (simp only: onCellClicked_edit) (simp add: toggle_active_def)

text \<open>
  Toggling id 2 in the rows with ids 1, 2, 3: the second row, active before, is
  inactive after, and the first row is as it was.
\<close>

theorem toggle_spec_witness:
  "(1::nat) < length [generated_row isoDate_UTC 0 0 1, generated_row isoDate_UTC 0 0 2, generated_row isoDate_UTC 0 0 3] \<and>
   String_num (id' ([generated_row isoDate_UTC 0 0 1, generated_row isoDate_UTC 0 0 2, generated_row isoDate_UTC 0 0 3] ! 1)) = ''2'' \<and>
   (0::nat) < length [generated_row isoDate_UTC 0 0 1, generated_row isoDate_UTC 0 0 2, generated_row isoDate_UTC 0 0 3] \<and>
   String_num (id' ([generated_row isoDate_UTC 0 0 1, generated_row isoDate_UTC 0 0 2, generated_row isoDate_UTC 0 0 3] ! 0)) \<noteq> ''2'' \<and>
   onCellClicked False (Target (Some ''edit'') (Some ''2''))
      [generated_row isoDate_UTC 0 0 1, generated_row isoDate_UTC 0 0 2, generated_row isoDate_UTC 0 0 3] ! 1 =
     (generated_row isoDate_UTC 0 0 2)\<lparr>active := False\<rparr> \<and>
   onCellClicked False (Target (Some ''edit'') (Some ''2''))
      [generated_row isoDate_UTC 0 0 1, generated_row isoDate_UTC 0 0 2, generated_row isoDate_UTC 0 0 3] ! 0 =
     generated_row isoDate_UTC 0 0 1"
proof -
  let ?prev = "[generated_row isoDate_UTC 0 0 1, generated_row isoDate_UTC 0 0 2, generated_row isoDate_UTC 0 0 3]"
  have l: "(1::nat) < length ?prev" "(0::nat) < length ?prev" by simp_all
  have s: "String_num (id' (?prev ! 1)) = ''2''" "String_num (id' (?prev ! 0)) \<noteq> ''2''"
    by (simp_all add: sample_ids String_num_eval)
  from toggle_spec[of False "''2''" ?prev] l(1) s(1)
  have a: "onCellClicked False (Target (Some ''edit'') (Some ''2'')) ?prev ! 1 =
      (?prev ! 1)\<lparr>active := \<not> active (?prev ! 1)\<rparr>" by blast
  have "active (?prev ! 1) = True" by (simp add: generated_row_def)
  with a have a': "onCellClicked False (Target (Some ''edit'') (Some ''2'')) ?prev ! 1 =
      (generated_row isoDate_UTC 0 0 2)\<lparr>active := False\<rparr>" by simp
  from toggle_spec[of False "''2''" ?prev] l(2) s(2)
  have "onCellClicked False (Target (Some ''edit'') (Some ''2'')) ?prev ! 0 = ?prev ! 0" by blast
  then have b: "onCellClicked False (Target (Some ''edit'') (Some ''2'')) ?prev ! 0 = generated_row isoDate_UTC 0 0 1"
    by simp
  from l s a' b show ?thesis by blast
qed

section \<open>The currency formatter\<close>

text \<open>
  Claim C4, amended. The formatter returns the empty string for undefined and for
  null. Any other value comes back unchanged exactly when \<open>Number(value)\<close> is
  NaN: NaN itself, and a string that is neither blank nor a numeric literal. Every
  other value comes back as the runtime's pt-BR currency formatting of
  \<open>Number(value)\<close>: a number other than NaN as itself, true as 1 and false as 0,
  an empty or blank string as 0, a numeric literal as the number it denotes.
\<close>

theorem formatCurrency_spec:
  "formatCurrency StringToNumber toLocaleString_BRL Undefined = Str [] \<and>
   formatCurrency StringToNumber toLocaleString_BRL Null = Str [] \<and>
   formatCurrency StringToNumber toLocaleString_BRL (Num NaN) = Num NaN \<and>
   (n \<noteq> NaN \<longrightarrow>
      formatCurrency StringToNumber toLocaleString_BRL (Num n) = Str (toLocaleString_BRL n)) \<and>
   formatCurrency StringToNumber toLocaleString_BRL (Bool True) = Str (toLocaleString_BRL (Finite 1)) \<and>
   formatCurrency StringToNumber toLocaleString_BRL (Bool False) = Str (toLocaleString_BRL (Finite 0)) \<and>
   (list_all is_StrWhiteSpaceChar s \<longrightarrow>
      formatCurrency StringToNumber toLocaleString_BRL (Str s) = Str (toLocaleString_BRL (Finite 0))) \<and>
   (\<not> list_all is_StrWhiteSpaceChar s \<and> StringToNumber s = NaN \<longrightarrow>
      formatCurrency StringToNumber toLocaleString_BRL (Str s) = Str s) \<and>
   (\<not> list_all is_StrWhiteSpaceChar s \<and> StringToNumber s \<noteq> NaN \<longrightarrow>
      formatCurrency StringToNumber toLocaleString_BRL (Str s) =
        Str (toLocaleString_BRL (StringToNumber s)))"
  by (simp add: formatCurrency_def isNaN_def Let_def)

text \<open>
  A runtime whose parser reads \<open>12.5\<close> and rejects \<open>abc\<close>: the number 12.5 and
  the text \<open>12.5\<close> come back formatted, a blank text comes back as zero reais, the
  text \<open>abc\<close> comes back as it is.
\<close>

theorem formatCurrency_spec_witness:
  "Finite (25 / 2) \<noteq> NaN \<and>
   formatCurrency (\<lambda>s. if s = ''12.5'' then Finite (25 / 2) else NaN)
     (\<lambda>n. if n = Finite (25 / 2) then ''R$'' @ [CHR 0xA0] @ ''12,50'' else ''R$'' @ [CHR 0xA0] @ ''0,00'')
     (Num (Finite (25 / 2))) = Str (''R$'' @ [CHR 0xA0] @ ''12,50'') \<and>
   list_all is_StrWhiteSpaceChar ''  '' \<and>
   formatCurrency (\<lambda>s. if s = ''12.5'' then Finite (25 / 2) else NaN)
     (\<lambda>n. if n = Finite (25 / 2) then ''R$'' @ [CHR 0xA0] @ ''12,50'' else ''R$'' @ [CHR 0xA0] @ ''0,00'')
     (Str ''  '') = Str (''R$'' @ [CHR 0xA0] @ ''0,00'') \<and>
   \<not> list_all is_StrWhiteSpaceChar ''abc'' \<and>
   formatCurrency (\<lambda>s. if s = ''12.5'' then Finite (25 / 2) else NaN)
     (\<lambda>n. if n = Finite (25 / 2) then ''R$'' @ [CHR 0xA0] @ ''12,50'' else ''R$'' @ [CHR 0xA0] @ ''0,00'')
     (Str ''abc'') = Str ''abc'' \<and>
   \<not> list_all is_StrWhiteSpaceChar ''12.5'' \<and>
   formatCurrency (\<lambda>s. if s = ''12.5'' then Finite (25 / 2) else NaN)
     (\<lambda>n. if n = Finite (25 / 2) then ''R$'' @ [CHR 0xA0] @ ''12,50'' else ''R$'' @ [CHR 0xA0] @ ''0,00'')
     (Str ''12.5'') = Str (''R$'' @ [CHR 0xA0] @ ''12,50'')"
proof -
  let ?S = "\<lambda>s. if s = ''12.5'' then Finite (25 / 2) else NaN"
  let ?L = "\<lambda>n. if n = Finite (25 / 2) then ''R$'' @ [CHR 0xA0] @ ''12,50'' else ''R$'' @ [CHR 0xA0] @ ''0,00''"
  have w: "list_all is_StrWhiteSpaceChar ''  ''" "\<not> list_all is_StrWhiteSpaceChar ''abc''"
    "\<not> list_all is_StrWhiteSpaceChar ''12.5''"
    by (simp_all add: is_StrWhiteSpaceChar_def)
  have p: "?S ''abc'' = NaN" "?S ''12.5'' \<noteq> NaN" by simp_all
  from formatCurrency_spec[of ?S ?L "Finite (25 / 2)" "''  ''"] w(1)
  have a: "formatCurrency ?S ?L (Num (Finite (25 / 2))) = Str (?L (Finite (25 / 2)))"
    and b: "formatCurrency ?S ?L (Str ''  '') = Str (?L (Finite 0))"
    by simp_all
  from formatCurrency_spec[of ?S ?L "Finite (25 / 2)" "''abc''"] w(2) p(1)
  have c: "formatCurrency ?S ?L (Str ''abc'') = Str ''abc''" by simp
  from formatCurrency_spec[of ?S ?L "Finite (25 / 2)" "''12.5''"] w(3) p(2)
  have d: "formatCurrency ?S ?L (Str ''12.5'') = Str (?L (?S ''12.5''))" by simp
  from a b c d w show ?thesis by simp
qed

text \<open>
  With "non-numeric" read as "not a number" the claim as it stands fails: true and
  the empty string are not numbers, and neither comes back unchanged. Whatever the
  runtime, true is formatted as 1; the empty string is formatted as 0.
\<close>

theorem formatCurrency_plain_counterexample:
  "(\<forall>S L. formatCurrency S L (Bool True) = Str (L (Finite 1))) \<and>
   (\<forall>S L. formatCurrency S L (Bool True) \<noteq> Bool True) \<and>
   formatCurrency (\<lambda>s. if s = ''12.5'' then Finite (25 / 2) else NaN)
     (\<lambda>n. if n = Finite 1 then ''R$'' @ [CHR 0xA0] @ ''1,00'' else ''R$'' @ [CHR 0xA0] @ ''0,00'')
     (Str []) = Str (''R$'' @ [CHR 0xA0] @ ''0,00'') \<and>
   Str (''R$'' @ [CHR 0xA0] @ ''0,00'') \<noteq> Str []"
  by (simp add: formatCurrency_def isNaN_def Let_def)

section \<open>Restoring the column state\<close>

text \<open>
  What the handler does on a stored, non-empty value: it fails with the parser's
  error when the value does not parse, and otherwise applies the parsed state
  and reports it.
\<close>

lemma restoreColumnState_invalid:
  "s \<noteq> [] \<Longrightarrow> JSON_parse s = None \<Longrightarrow> restoreColumnState JSON_parse (Some s) u = Inl SyntaxError"
  by (simp add: restoreColumnState_def)

lemma restoreColumnState_valid:
  "s \<noteq> [] \<Longrightarrow> JSON_parse s = Some st \<Longrightarrow>
   restoreColumnState JSON_parse (Some s) u =
     Inr (u\<lparr>columnState := st, alerts := alerts u @ [''Column state restored'']\<rparr>)"
  by (simp add: restoreColumnState_def)

text \<open>
  Claim C7, amended. When the saved column state is missing (nothing, or the
  empty string, is stored under the key) the restore operation surfaces the alert
  \<open>No saved state\<close> and leaves the column state as it is: it returns normally.
\<close>

theorem restoreColumnState_missing:
  "(raw = None \<or> raw = Some [] \<longrightarrow>
      restoreColumnState JSON_parse raw u = Inr (u\<lparr>alerts := alerts u @ [''No saved state'']\<rparr>) \<and>
      (\<exists>u'. restoreColumnState JSON_parse raw u = Inr u' \<and>
            columnState u' = columnState u \<and>
            alerts u' = alerts u @ [''No saved state'']))"
  by (auto simp: restoreColumnState_def)

text \<open>Nothing stored, with a grid showing the columns \<open>id\<close> and \<open>name\<close>.\<close>

theorem restoreColumnState_missing_witness:
  "restoreColumnState (\<lambda>s. if s = ''[]'' then Some ([] :: string list) else None) None
     \<lparr>columnState = [''id'', ''name''], alerts = []\<rparr> =
   Inr \<lparr>columnState = [''id'', ''name''], alerts = [''No saved state'']\<rparr>"
  using restoreColumnState_missing[of None "\<lambda>s. if s = ''[]'' then Some ([] :: string list) else None"
      "\<lparr>columnState = [''id'', ''name''], alerts = []\<rparr>"]
  by simp

text \<open>
  In the invalid case C7 fails: with the text \<open>{\<close> stored, which no JSON parser
  accepts, the handler ends in the parser's \<open>SyntaxError\<close> and shows no alert.
\<close>

theorem restoreColumnState_invalid_counterexample:
  "restoreColumnState (\<lambda>s. if s = ''[]'' then Some ([] :: string list) else None) (Some ''{'')
     \<lparr>columnState = [], alerts = []\<rparr> = Inl SyntaxError"
  by (simp add: restoreColumnState_def)

end
